theory Spec2Isabelle
  imports Complex_Main "HOL-Library.Multiset" "HOL-Library.Monad_Syntax"
begin

section \<open>JavaScript values\<close>

text \<open>
  The planner document arrives as the result of \<open>JSON.parse\<close>, so the normalizers work on
  arbitrary JSON values. A string is the list of its code units. The character type has
  256 elements, which stand for the code units U+0000 to U+00FF: the strings of this
  theory are the strings over these code units, and a string with a code unit above
  U+00FF is outside it. White space is what \<open>String.prototype.trim\<close>, \<open>Number.parseInt\<close>
  and the regular expression class \<open>\s\<close> take for white space among these code units:
  the space, the four controls U+0009 to U+000C, U+000D, and the no-break space U+00A0.
\<close>

definition is_space :: "char \<Rightarrow> bool" where
  "is_space c =
     (c \<in> set [CHR '' '', CHR 0x09, CHR 0x0A, CHR 0x0B, CHR 0x0C, CHR 0x0D, CHR 0xA0])"

definition is_digit :: "char \<Rightarrow> bool" where
  "is_digit c = (c \<in> set ''0123456789'')"

definition is_hex :: "char \<Rightarrow> bool" where
  "is_hex c = (c \<in> set ''0123456789abcdefABCDEF'')"

definition trim :: "string \<Rightarrow> string" where
  "trim s = rev (dropWhile is_space (rev (dropWhile is_space s)))"

definition digit_val :: "char \<Rightarrow> int" where
  "digit_val c = of_char c - of_char CHR ''0''"

definition dec_value :: "string \<Rightarrow> int" where
  "dec_value ds = foldl (\<lambda>acc c. 10 * acc + digit_val c) 0 ds"

text \<open>The test \<open>/^#[0-9a-fA-F]{6}$/.test(s)\<close>.\<close>

definition hex_color :: "string \<Rightarrow> bool" where
  "hex_color s =
     (case s of
        [] \<Rightarrow> False
      | c # cs \<Rightarrow> c = CHR ''#'' \<and> length cs = 6 \<and> list_all is_hex cs)"

text \<open>
  A JavaScript number: a finite value, an infinity, or \<open>NaN\<close>. A finite number is the
  rational it stands for; the sign of zero is not represented, and nothing below tells
  the two zeros apart.
\<close>

datatype jsnum = NaN | PInf | NInf | Fin rat

datatype json =
    JUndef
  | JNull
  | JBool bool
  | JNum jsnum
  | JStr string
  | JArr "json list"
  | JObj "(string \<times> json) list"

text \<open>
  What the code reads from outside: the date of today in the fixed time zone
  (\<open>getTodayDateIST()\<close>), the clock (\<open>Date.now()\<close>), the identifier generator
  (\<open>randomUUID()\<close>, indexed by the position of the task that needs one), and the two
  conversions of the language between numbers and strings.
\<close>

record env =
  today :: string
  now :: int
  randomUUID :: "nat \<Rightarrow> string"
  numberToString :: "jsnum \<Rightarrow> string"
  stringToNumber :: "string \<Rightarrow> jsnum"

text \<open>Truthiness: \<open>Boolean(v)\<close>, and the operand test of \<open>||\<close>, \<open>&&\<close> and \<open>!\<close>.\<close>

fun truthy :: "json \<Rightarrow> bool" where
  "truthy JUndef = False"
| "truthy JNull = False"
| "truthy (JBool b) = b"
| "truthy (JNum n) = (n \<noteq> NaN \<and> n \<noteq> Fin 0)"
| "truthy (JStr s) = (s \<noteq> [])"
| "truthy (JArr xs) = True"
| "truthy (JObj kvs) = True"

definition js_or :: "json \<Rightarrow> json \<Rightarrow> json" where
  "js_or a b = (if truthy a then a else b)"

text \<open>
  Reading a property \<open>v.k\<close> (or \<open>v?.k\<close>) for the property names the normalizers use on
  documents, tasks and timers. None of these names is a member of \<open>Object.prototype\<close>,
  \<open>Array.prototype\<close> or of a primitive wrapper, so only an own property of an object gives
  a value; everything else gives \<open>undefined\<close>.
\<close>

definition get :: "json \<Rightarrow> string \<Rightarrow> json" where
  "get v k =
     (case v of
        JObj kvs \<Rightarrow> (case map_of kvs k of Some x \<Rightarrow> x | None \<Rightarrow> JUndef)
      | _ \<Rightarrow> JUndef)"

definition join_comma :: "string list \<Rightarrow> string" where
  "join_comma ss = (case ss of [] \<Rightarrow> [] | s # rest \<Rightarrow> s @ concat (map (\<lambda>t. CHR '','' # t) rest))"

text \<open>
  \<open>String(v)\<close>. An array is joined with commas, \<open>null\<close> and \<open>undefined\<close> elements
  giving the empty string. An object parsed from JSON is converted by
  \<open>Object.prototype.toString\<close>, unless it has an own property \<open>toString\<close>: that property is
  not callable, \<open>valueOf\<close> does not return a primitive either, and the conversion throws
  a \<open>TypeError\<close>, which is \<open>None\<close> here.
\<close>

fun js_String :: "env \<Rightarrow> json \<Rightarrow> string option" where
  "js_String E JUndef = Some ''undefined''"
| "js_String E JNull = Some ''null''"
| "js_String E (JBool b) = Some (if b then ''true'' else ''false'')"
| "js_String E (JNum n) = Some (numberToString E n)"
| "js_String E (JStr s) = Some s"
| "js_String E (JArr xs) =
     map_option join_comma
       (those (map (\<lambda>x. if x = JNull \<or> x = JUndef then Some [] else js_String E x) xs))"
| "js_String E (JObj kvs) =
     (if ''toString'' \<in> set (map fst kvs) then None else Some ''[object Object]'')"

text \<open>\<open>Number(v)\<close>. Arrays and objects are converted through their string.\<close>

definition js_Number :: "env \<Rightarrow> json \<Rightarrow> jsnum option" where
  "js_Number E v =
     (case v of
        JUndef \<Rightarrow> Some NaN
      | JNull \<Rightarrow> Some (Fin 0)
      | JBool b \<Rightarrow> Some (Fin (if b then 1 else 0))
      | JNum n \<Rightarrow> Some n
      | JStr s \<Rightarrow> Some (stringToNumber E s)
      | _ \<Rightarrow> map_option (stringToNumber E) (js_String E v))"

text \<open>\<open>Array.from(new Set(xs))\<close>: the first occurrence of every element, in order.\<close>

definition dedupe :: "'a list \<Rightarrow> 'a list" where
  "dedupe xs = foldl (\<lambda>seen x. if x \<in> set seen then seen else seen @ [x]) [] xs"

subsection \<open>Objects used as dictionaries\<close>

text \<open>
  An object literal \<open>{}\<close> that the code fills with computed keys is the list of its own
  properties, in the order \<open>Object.entries\<close> enumerates them: array indices first, in
  ascending order, then the other keys in the order they were added.
\<close>

type_synonym 'a jsobj = "(string \<times> 'a) list"

definition is_array_index :: "string \<Rightarrow> bool" where
  "is_array_index s =
     (s \<noteq> [] \<and> list_all is_digit s \<and> (s = ''0'' \<or> hd s \<noteq> CHR ''0'')
      \<and> dec_value s < 4294967295)"

fun obj_insert :: "string \<Rightarrow> 'a \<Rightarrow> 'a jsobj \<Rightarrow> 'a jsobj" where
  "obj_insert k v [] = [(k, v)]"
| "obj_insert k v ((k', v') # rest) =
     (if is_array_index k' \<and> dec_value k' < dec_value k
      then (k', v') # obj_insert k v rest
      else (k, v) # (k', v') # rest)"

text \<open>Defining the own property \<open>k\<close> with value \<open>v\<close>.\<close>

definition obj_set :: "'a jsobj \<Rightarrow> string \<Rightarrow> 'a \<Rightarrow> 'a jsobj" where
  "obj_set obj k v =
     (if k \<in> set (map fst obj) then map (\<lambda>(k', v'). if k' = k then (k', v) else (k', v')) obj
      else if is_array_index k then obj_insert k v obj
      else obj @ [(k, v)])"

text \<open>\<open>delete obj[k]\<close>.\<close>

definition obj_delete :: "'a jsobj \<Rightarrow> string \<Rightarrow> 'a jsobj" where
  "obj_delete obj k = filter (\<lambda>(k', v'). k' \<noteq> k) obj"

text \<open>
  The names that every object created by \<open>{}\<close> inherits from \<open>Object.prototype\<close>. Reading
  one of them from an object without such an own property gives a function (for
  \<open>__proto__\<close> the prototype object), which is truthy.
\<close>

definition Object_prototype_keys :: "string list" where
  "Object_prototype_keys =
     [''constructor'', ''__defineGetter__'', ''__defineSetter__'', ''hasOwnProperty'',
      ''__lookupGetter__'', ''__lookupSetter__'', ''isPrototypeOf'', ''propertyIsEnumerable'',
      ''toString'', ''valueOf'', ''__proto__'', ''toLocaleString'']"

text \<open>
  The test \<open>obj[k]\<close> used as a condition, on an object whose own values are strings: an own
  property counts when its string is not empty, an inherited one always.
\<close>

definition obj_truthy :: "string jsobj \<Rightarrow> string \<Rightarrow> bool" where
  "obj_truthy obj k =
     (case map_of obj k of
        Some v \<Rightarrow> v \<noteq> []
      | None \<Rightarrow> k \<in> set Object_prototype_keys)"

text \<open>
  The assignment \<open>obj[k] = v\<close> with a string \<open>v\<close>, on an object created by \<open>{}\<close> and
  filled by such assignments only. For \<open>k = "__proto__"\<close> the assignment reaches the
  inherited setter, which ignores a value that is not an object: no property is created.
\<close>

definition obj_assign :: "string jsobj \<Rightarrow> string \<Rightarrow> string \<Rightarrow> string jsobj" where
  "obj_assign obj k v = (if k = ''__proto__'' then obj else obj_set obj k v)"

text \<open>Decimal digits of a natural number: the keys \<open>Object.entries\<close> gives for an array.\<close>

fun nat_string :: "nat \<Rightarrow> string" where
  "nat_string n =
     (if n < 10 then [char_of (n + 48)] else nat_string (n div 10) @ [char_of (n mod 10 + 48)])"

declare nat_string.simps [simp del]

definition entries :: "json \<Rightarrow> (string \<times> json) list" where
  "entries v =
     (case v of
        JObj kvs \<Rightarrow> kvs
      | JArr xs \<Rightarrow> zip (map nat_string [0..<length xs]) xs
      | _ \<Rightarrow> [])"

subsection \<open>Numbers\<close>

text \<open>
  The numbers of JavaScript are the binary floating point numbers with 53 significant
  bits (IEEE 754 binary64). \<open>to_double x\<close> is the number nearest to the rational \<open>x\<close>,
  the one with the even significand of two that are equally near. \<open>ilog2 a\<close> is the
  exponent of \<open>a\<close>, the \<open>k\<close> with \<open>2 powi k \<le> a < 2 powi (k + 1)\<close>; the spacing of the
  numbers around \<open>x\<close> is \<open>2 powi (k - 52)\<close>, and below the exponent \<open>- 1022\<close> it stays
  the spacing of the subnormal numbers. A result of magnitude \<open>2 ^ 1024\<close> or more is an
  infinity.
\<close>

function ilog2 :: "rat \<Rightarrow> int" where
  "ilog2 a =
     (if a \<le> 0 then 0
      else if a < 1 then ilog2 (2 * a) - 1
      else if 2 \<le> a then ilog2 (a / 2) + 1
      else 0)"
  by pat_completeness auto
termination
proof (relation "measure (\<lambda>a. if a < 1 then nat \<lfloor>1 / a\<rfloor> + 1 else nat \<lfloor>a\<rfloor>)", goal_cases)
  case 1
  show ?case by simp
next
  case (2 a)
  then have a: "0 < a" "a < 1" by auto
  show ?case
  proof (cases "2 * a < 1")
    case True
    have e: "1 / (2 * a) = (1 / a) / 2" by simp
    have "of_int \<lfloor>1 / a / 2\<rfloor> \<le> 1 / a / 2" by (rule of_int_floor_le)
    also have "\<dots> \<le> 1 / a - 1" using True a by (simp add: field_simps)
    also have "\<dots> < of_int \<lfloor>1 / a\<rfloor>" by linarith
    finally have "\<lfloor>(1 / a) / 2\<rfloor> < \<lfloor>1 / a\<rfloor>" by simp
    moreover have "0 \<le> \<lfloor>1 / a / 2\<rfloor>" using a by simp
    ultimately show ?thesis using True a unfolding in_measure e by simp
  next
    case False
    then have "1 \<le> 2 * a" "2 * a < 2" using a by auto
    then have "\<lfloor>2 * a\<rfloor> = 1" by (simp add: floor_eq_iff)
    moreover have "1 \<le> \<lfloor>1 / a\<rfloor>" using a by (simp add: le_floor_iff)
    ultimately show ?thesis using False a by simp
  qed
next
  case (3 a)
  then have a: "2 \<le> a" by auto
  have "of_int \<lfloor>a / 2\<rfloor> \<le> a / 2" by (rule of_int_floor_le)
  also have "\<dots> \<le> a - 1" using a by simp
  also have "\<dots> < of_int \<lfloor>a\<rfloor>" by linarith
  finally have "\<lfloor>a / 2\<rfloor> < \<lfloor>a\<rfloor>" by simp
  moreover have "0 \<le> \<lfloor>a / 2\<rfloor>" using a by simp
  ultimately show ?case using a by simp
qed

declare ilog2.simps [simp del]

definition round_even :: "rat \<Rightarrow> int" where
  "round_even x =
     (let n = \<lfloor>x\<rfloor>; f = x - of_int n in
      if f < 1 / 2 then n
      else if 1 / 2 < f then n + 1
      else if even n then n else n + 1)"

definition to_double :: "rat \<Rightarrow> jsnum" where
  "to_double x =
     (if x = 0 then Fin 0
      else
        let e = max (ilog2 \<bar>x\<bar>) (- 1022);
            u = 2 powi (e - 52);
            y = of_int (round_even (x / u)) * u
        in if 2 ^ 1024 \<le> \<bar>y\<bar> then (if 0 < x then PInf else NInf) else Fin y)"

text \<open>The tests \<open>v > 0\<close> and \<open>v < 0\<close>, and \<open>Number.isFinite(v)\<close>.\<close>

fun gt0 :: "jsnum \<Rightarrow> bool" where
  "gt0 PInf = True"
| "gt0 (Fin q) = (0 < q)"
| "gt0 n = False"

fun lt0 :: "jsnum \<Rightarrow> bool" where
  "lt0 NInf = True"
| "lt0 (Fin q) = (q < 0)"
| "lt0 n = False"

fun is_finite :: "jsnum \<Rightarrow> bool" where
  "is_finite (Fin q) = True"
| "is_finite n = False"

text \<open>
  The difference, the product and the quotient of two numbers, first as the exact values,
  with the rules of the infinities and of \<open>NaN\<close>.
\<close>

fun num_sub :: "jsnum \<Rightarrow> jsnum \<Rightarrow> jsnum" where
  "num_sub (Fin a) (Fin b) = Fin (a - b)"
| "num_sub NaN m = NaN"
| "num_sub n NaN = NaN"
| "num_sub PInf PInf = NaN"
| "num_sub NInf NInf = NaN"
| "num_sub PInf m = PInf"
| "num_sub NInf m = NInf"
| "num_sub (Fin a) PInf = NInf"
| "num_sub (Fin a) NInf = PInf"

fun num_mul :: "jsnum \<Rightarrow> jsnum \<Rightarrow> jsnum" where
  "num_mul (Fin a) (Fin b) = Fin (a * b)"
| "num_mul NaN m = NaN"
| "num_mul n NaN = NaN"
| "num_mul PInf m = (if m = Fin 0 then NaN else if gt0 m then PInf else NInf)"
| "num_mul NInf m = (if m = Fin 0 then NaN else if gt0 m then NInf else PInf)"
| "num_mul (Fin a) PInf = (if a = 0 then NaN else if 0 < a then PInf else NInf)"
| "num_mul (Fin a) NInf = (if a = 0 then NaN else if 0 < a then NInf else PInf)"

fun num_div :: "jsnum \<Rightarrow> jsnum \<Rightarrow> jsnum" where
  "num_div (Fin a) (Fin b) =
     (if b = 0 then (if a = 0 then NaN else if 0 < a then PInf else NInf) else Fin (a / b))"
| "num_div NaN m = NaN"
| "num_div n NaN = NaN"
| "num_div (Fin a) m = Fin 0"
| "num_div PInf (Fin b) = (if 0 \<le> b then PInf else NInf)"
| "num_div NInf (Fin b) = (if 0 \<le> b then NInf else PInf)"
| "num_div n m = NaN"

text \<open>
  The operators \<open>-\<close>, \<open>*\<close> and \<open>/\<close>: the exact value, rounded. Where only the sign of a
  difference is read (by \<open>Array.prototype.sort\<close>, of what a comparator returns) the exact
  difference \<open>num_sub\<close> stands for it: the rounded difference of two numbers has the sign
  of the exact one.
\<close>

fun round_num :: "jsnum \<Rightarrow> jsnum" where
  "round_num (Fin q) = to_double q"
| "round_num n = n"

definition dbl_sub :: "jsnum \<Rightarrow> jsnum \<Rightarrow> jsnum" where
  "dbl_sub a b = round_num (num_sub a b)"

definition dbl_mul :: "jsnum \<Rightarrow> jsnum \<Rightarrow> jsnum" where
  "dbl_mul a b = round_num (num_mul a b)"

definition dbl_div :: "jsnum \<Rightarrow> jsnum \<Rightarrow> jsnum" where
  "dbl_div a b = round_num (num_div a b)"

text \<open>\<open>Math.max\<close>, \<open>Math.min\<close> and \<open>Math.round\<close>, which are exact.\<close>

fun num_le :: "jsnum \<Rightarrow> jsnum \<Rightarrow> bool" where
  "num_le (Fin a) (Fin b) = (a \<le> b)"
| "num_le NaN m = False"
| "num_le n NaN = False"
| "num_le NInf m = True"
| "num_le n PInf = True"
| "num_le n m = False"

definition num_max :: "jsnum \<Rightarrow> jsnum \<Rightarrow> jsnum" where
  "num_max a b = (if a = NaN \<or> b = NaN then NaN else if num_le a b then b else a)"

definition num_min :: "jsnum \<Rightarrow> jsnum \<Rightarrow> jsnum" where
  "num_min a b = (if a = NaN \<or> b = NaN then NaN else if num_le a b then a else b)"

fun math_round :: "jsnum \<Rightarrow> jsnum" where
  "math_round (Fin y) = Fin (of_int \<lfloor>y + 1 / 2\<rfloor>)"
| "math_round n = n"

text \<open>\<open>n || d\<close> on numbers, and \<open>a !== b\<close>, which holds of \<open>NaN\<close> and itself.\<close>

definition num_or :: "jsnum \<Rightarrow> jsnum \<Rightarrow> jsnum" where
  "num_or n d = (if n = NaN \<or> n = Fin 0 then d else n)"

definition strict_ne :: "jsnum \<Rightarrow> jsnum \<Rightarrow> bool" where
  "strict_ne a b = (a = NaN \<or> b = NaN \<or> a \<noteq> b)"

section \<open>The server-side normalizer (src/server.js, first part)\<close>

text \<open>
  A task, as the normalizer returns it and as the client builds it in \<open>submitTask\<close>. The fields \<open>id\<close>, \<open>done\<close> and
  \<open>order\<close> of the source are \<open>id_task\<close>, \<open>done_task\<close> and \<open>order_task\<close> here;
  \<open>order_task = None\<close> is a task object without the property \<open>order\<close>.
\<close>

record task =
  id_task :: string
  name :: string
  description :: string
  priority :: string
  category :: string
  taskType :: string
  meetingTime :: string
  date :: string
  done_task :: bool
  hidden :: bool
  createdAt :: jsnum
  order_task :: "int option"

text \<open>
  The document the server returns and stores: \<open>{ tasks, categories, categoryColors,
  selectedDate }\<close>. The client's document has two more properties.
\<close>

record doc =
  tasks :: "task list"
  categories :: "string list"
  categoryColors :: "string jsobj"
  selectedDate :: string

definition DEFAULT_CATEGORY_COLOR :: string where
  "DEFAULT_CATEGORY_COLOR = ''#4f8dfd''"

text \<open>\<open>typeof v === "object"\<close>.\<close>

fun typeof_object :: "json \<Rightarrow> bool" where
  "typeof_object JNull = True"
| "typeof_object (JArr xs) = True"
| "typeof_object (JObj kvs) = True"
| "typeof_object v = False"

text \<open>\<open>Array.isArray(v) ? v : d\<close>.\<close>

definition array_or :: "json \<Rightarrow> json list \<Rightarrow> json list" where
  "array_or v d = (case v of JArr xs \<Rightarrow> xs | _ \<Rightarrow> d)"

text \<open>
  Lines 35 to 45: the category names. \<open>None\<close> is the \<open>TypeError\<close> that \<open>String\<close>
  throws; it leaves \<open>normalizeState\<close>.
\<close>

definition normalizeCategories :: "env \<Rightarrow> json \<Rightarrow> string list option" where
  "normalizeCategories E payload =
     do {
       let categoriesInput = array_or (get payload ''categories'') [JStr ''General''];
       strs \<leftarrow> those (map (\<lambda>x. map_option trim (js_String E (js_or x (JStr [])))) categoriesInput);
       let cats = dedupe (filter (\<lambda>s. s \<noteq> []) strs);
       Some (if ''General'' \<in> set cats then cats else ''General'' # cats)
     }"

text \<open>Lines 50 to 56: the loop over \<open>Object.entries(rawColors)\<close>.\<close>

fun collectColors :: "env \<Rightarrow> string jsobj \<Rightarrow> (string \<times> json) list \<Rightarrow> string jsobj option" where
  "collectColors E colors [] = Some colors"
| "collectColors E colors ((key, val) # rest) =
     do {
       let cat = trim key;
       color \<leftarrow> map_option trim (js_String E (js_or val (JStr [])));
       collectColors E
         (if cat \<noteq> [] \<and> hex_color color then obj_assign colors cat color else colors)
         rest
     }"

text \<open>Lines 59 to 63: the default colour for every category that has none.\<close>

definition fillColors :: "string jsobj \<Rightarrow> string list \<Rightarrow> string jsobj" where
  "fillColors colors cats =
     foldl (\<lambda>acc cat.
              if \<not> obj_truthy acc cat then obj_assign acc cat DEFAULT_CATEGORY_COLOR
              else acc)
       colors cats"

text \<open>Lines 68 to 82: one task; \<open>i\<close> is its position among the tasks kept by the filter.\<close>

definition safeTask :: "env \<Rightarrow> string list \<Rightarrow> nat \<Rightarrow> json \<Rightarrow> task option" where
  "safeTask E cats i t =
     do {
       id' \<leftarrow> js_String E (js_or (get t ''id'') (JStr (randomUUID E i)));
       name' \<leftarrow> js_String E (js_or (get t ''name'') (JStr []));
       description' \<leftarrow> js_String E (js_or (get t ''description'') (JStr []));
       priority' \<leftarrow> js_String E (js_or (get t ''priority'') (JStr ''Medium''));
       c \<leftarrow> js_String E (js_or (get t ''category'') (JStr []));
       category' \<leftarrow> (if c \<in> set cats then js_String E (get t ''category'')
                     else Some ''General'');
       taskType' \<leftarrow> js_String E (js_or (get t ''taskType'') (JStr ''Work''));
       meetingTime' \<leftarrow> js_String E (js_or (get t ''meetingTime'') (JStr []));
       date' \<leftarrow> js_String E (js_or (get t ''date'') (JStr (today E)));
       createdAt' \<leftarrow> js_Number E (js_or (get t ''createdAt'') (JNum (Fin (of_int (now E)))));
       Some \<lparr>id_task = id', name = name', description = description',
             priority = priority', category = category', taskType = taskType',
             meetingTime = meetingTime', date = date',
             done_task = truthy (get t ''done''), hidden = truthy (get t ''hidden''),
             createdAt = createdAt', order_task = None\<rparr>
     }"

text \<open>\<open>normalizeState(payload)\<close> of the server.\<close>

definition normalizeState :: "env \<Rightarrow> json \<Rightarrow> doc option" where
  "normalizeState E payload =
     do {
       categories' \<leftarrow> normalizeCategories E payload;
       let rawColors = get payload ''categoryColors'';
       collected \<leftarrow> (if truthy rawColors \<and> typeof_object rawColors
                    then collectColors E [] (entries rawColors) else Some []);
       let categoryColors' = fillColors collected categories';
       let tasksIn = array_or (get payload ''tasks'') [];
       let kept = filter (\<lambda>t. truthy t \<and> typeof_object t) tasksIn;
       safeTasks \<leftarrow> those (map (\<lambda>(i, t). safeTask E categories' i t) (enumerate 0 kept));
       selectedDate' \<leftarrow> js_String E (js_or (get payload ''selectedDate'') (JStr (today E)));
       Some \<lparr>tasks = safeTasks, categories = categories',
             categoryColors = categoryColors', selectedDate = selectedDate'\<rparr>
     }"

text \<open>
  The document as a JavaScript value again: what \<open>normalizeState\<close> receives when it is
  applied to its own result. A task without \<open>order\<close> has no such property.
\<close>

definition task_json :: "task \<Rightarrow> json" where
  "task_json t =
     JObj ([(''id'', JStr (id_task t)), (''name'', JStr (name t)),
            (''description'', JStr (description t)), (''priority'', JStr (priority t)),
            (''category'', JStr (category t)), (''taskType'', JStr (taskType t)),
            (''meetingTime'', JStr (meetingTime t)), (''date'', JStr (date t)),
            (''done'', JBool (done_task t)), (''hidden'', JBool (hidden t)),
            (''createdAt'', JNum (createdAt t))]
           @ (case order_task t of None \<Rightarrow> [] | Some n \<Rightarrow> [(''order'', JNum (Fin (of_int n)))]))"

definition doc_json :: "doc \<Rightarrow> json" where
  "doc_json d =
     JObj [(''tasks'', JArr (map task_json (tasks d))),
           (''categories'', JArr (map JStr (categories d))),
           (''categoryColors'', JObj (map (\<lambda>(k, v). (k, JStr v)) (categoryColors d))),
           (''selectedDate'', JStr (selectedDate d))]"

subsection \<open>An environment for evaluating examples\<close>

text \<open>
  The examples evaluated in this theory need a concrete environment. Its two conversions
  are the language's conversions restricted to integers written in decimal, which is all
  the examples contain: \<open>String(n)\<close> for an integer \<open>n\<close> of magnitude below \<open>10^21\<close>,
  and \<open>Number(s)\<close> for a string of decimal digits with an optional sign (the empty
  string gives 0, every other string \<open>NaN\<close>).
\<close>

definition integer_string :: "jsnum \<Rightarrow> string" where
  "integer_string n =
     (case n of
        NaN \<Rightarrow> ''NaN''
      | PInf \<Rightarrow> ''Infinity''
      | NInf \<Rightarrow> ''-Infinity''
      | Fin q \<Rightarrow> (if q < 0 then CHR ''-'' # nat_string (nat \<lfloor>- q\<rfloor>) else nat_string (nat \<lfloor>q\<rfloor>)))"

definition integer_number :: "string \<Rightarrow> jsnum" where
  "integer_number s =
     (let t = trim s;
          neg = (t \<noteq> [] \<and> hd t = CHR ''-'');
          ds = (if t \<noteq> [] \<and> (hd t = CHR ''-'' \<or> hd t = CHR ''+'') then tl t else t)
      in if t = [] then Fin 0
         else if ds \<noteq> [] \<and> list_all is_digit ds
         then Fin (if neg then - of_int (dec_value ds) else of_int (dec_value ds))
         else NaN)"

definition env0 :: env where
  "env0 = \<lparr>today = ''2026-11-03'', now = 1793700000000,
            randomUUID = (\<lambda>i. ''uuid-'' @ nat_string i),
            numberToString = integer_string, stringToNumber = integer_number\<rparr>"

section \<open>The client (src/server.js, second part: the React component)\<close>

text \<open>
  The component \<open>App\<close> keeps the planner document in the hook state \<open>data\<close>, and the
  sort mode, the timers, the filters and the inputs of the settings panel in hook states of
  their own. Every handler is a closure over these hook states; it is modelled as a
  function from the hook states before the call to the hook states after it. The hook
  states that none of the handlers below reads (the task form, the focused task, the open
  menus) are left out.
\<close>

subsection \<open>Timers and the client's document\<close>

text \<open>A timer entry \<open>{ remainingSeconds, durationSeconds, isRunning }\<close>.\<close>

record timer =
  remainingSeconds :: jsnum
  durationSeconds :: jsnum
  isRunning :: bool

text \<open>The object \<open>pomodoroTimers\<close>, keyed by task id. Absent key: no entry.\<close>

type_synonym timers = "string \<rightharpoonup> timer"

definition DEFAULT_POMODORO_SECONDS :: jsnum where
  "DEFAULT_POMODORO_SECONDS = Fin (30 * 60)"

record planner = doc +
  sortBy :: string
  pomodoroTimers :: timers

record app =
  data :: planner
  sortBy_st :: string
  pomodoroTimers_st :: timers
  newCategory :: string
  newCategoryColor :: string
  filterType :: string
  filterCategory :: string
  filterStatus :: string
  showAllTasks :: bool
  draggingId :: "string option"

text \<open>
  \<open>persist(next, pomodoroTimersOverride = pomodoroTimers)\<close>: the document is stored in
  \<open>data\<close> with the timers given (the request to the server is not part of the state).
\<close>

definition persist :: "planner \<Rightarrow> timers \<Rightarrow> app \<Rightarrow> app" where
  "persist next override a = a\<lparr>data := next\<lparr>pomodoroTimers := override\<rparr>\<rparr>"

text \<open>\<open>createDefaultState()\<close>, and the initial values of the hook states.\<close>

definition createDefaultState :: "env \<Rightarrow> planner" where
  "createDefaultState E =
     \<lparr>tasks = [], categories = [''General''],
      categoryColors = [(''General'', DEFAULT_CATEGORY_COLOR)],
      selectedDate = today E, sortBy = ''priority'', pomodoroTimers = Map.empty\<rparr>"

definition initialApp :: "env \<Rightarrow> app" where
  "initialApp E =
     \<lparr>data = createDefaultState E, sortBy_st = ''priority'', pomodoroTimers_st = Map.empty,
      newCategory = [], newCategoryColor = DEFAULT_CATEGORY_COLOR,
      filterType = ''All'', filterCategory = ''All'', filterStatus = ''All'',
      showAllTasks = False, draggingId = None\<rparr>"

text \<open>
  The object \<open>newTask\<close> of \<open>submitTask\<close>, from the values of the form; \<open>i\<close> selects
  the identifier that \<open>crypto.randomUUID()\<close> returns.
\<close>

definition newTask ::
  "env \<Rightarrow> nat \<Rightarrow> string \<Rightarrow> string \<Rightarrow> string \<Rightarrow> string \<Rightarrow> string \<Rightarrow> string \<Rightarrow> string \<Rightarrow> task" where
  "newTask E i name' description' priority' category' taskType' meetingTime' date' =
     \<lparr>id_task = randomUUID E i, name = name', description = description',
      priority = priority', category = category', taskType = taskType',
      meetingTime = meetingTime', date = date', done_task = False, hidden = False,
      createdAt = Fin (of_int (now E)), order_task = None\<rparr>"

subsection \<open>The interval effect: one tick\<close>

text \<open>
  The body of the \<open>forEach\<close> in the \<open>setInterval\<close> callback, for one entry. An entry
  that is not running is skipped. Otherwise the new values are computed, \<open>current - 1\<close>
  as a number, and the entry is replaced only if one of them differs from the old one.
\<close>

definition tick_timer :: "timer \<Rightarrow> timer" where
  "tick_timer t =
     (if \<not> isRunning t then t
      else
        let current = remainingSeconds t;
            rem = num_max (dbl_sub current (Fin 1)) (Fin 0);
            run = gt0 rem
        in if strict_ne rem current \<or> run \<noteq> isRunning t
           then t\<lparr>remainingSeconds := rem, isRunning := run\<rparr>
           else t)"

text \<open>
  The updater passed to \<open>setPomodoroTimers\<close>: every own entry of \<open>prev\<close> goes through the
  loop body; keys without an entry stay without one.
\<close>

definition tick :: "timers \<Rightarrow> timers" where
  "tick prev = (\<lambda>taskId. map_option tick_timer (prev taskId))"

subsection \<open>Starting a timer\<close>

text \<open>
  \<open>Number.parseInt(input, 10)\<close>: leading white space is skipped, one sign is read, then
  the longest run of decimal digits. No digit: \<open>NaN\<close>. Otherwise the result is the number
  nearest to the integer the digits denote, an infinity when that integer is too large
  for a finite number.
\<close>

definition parseInt10 :: "string \<Rightarrow> jsnum" where
  "parseInt10 input =
     (let s = dropWhile is_space input;
          neg = (s \<noteq> [] \<and> hd s = CHR ''-'');
          body = (if s \<noteq> [] \<and> (hd s = CHR ''-'' \<or> hd s = CHR ''+'') then tl s else s);
          ds = takeWhile is_digit body
      in if ds = [] then NaN
         else to_double (of_int (if neg then - dec_value ds else dec_value ds)))"

text \<open>
  The second half of \<open>startPomodoro\<close>, from \<open>window.prompt\<close> on. The argument
  \<open>prompt\<close> is what \<open>window.prompt\<close> returns: \<open>None\<close> for \<open>null\<close> (the dialog was
  cancelled). The result is \<open>nextTimers\<close>, or \<open>None\<close> for the early return.
\<close>

definition promptTimers :: "string option \<Rightarrow> string \<Rightarrow> timers \<Rightarrow> timers option" where
  "promptTimers prompt taskId timers0 =
     (case prompt of
        None \<Rightarrow> None
      | Some input \<Rightarrow>
          let minutes = parseInt10 input;
              safeMinutes = (if is_finite minutes \<and> gt0 minutes then minutes else Fin 30);
              seconds = dbl_mul safeMinutes (Fin 60)
          in Some (timers0(taskId \<mapsto>
               \<lparr>remainingSeconds = seconds, durationSeconds = seconds, isRunning = True\<rparr>)))"

text \<open>
  \<open>startPomodoro(taskId)\<close>: an existing entry with time left is resumed; in every other
  case (no entry, or an entry with no time left) the prompt is shown.
\<close>

definition startPomodoro :: "string option \<Rightarrow> string \<Rightarrow> app \<Rightarrow> app" where
  "startPomodoro prompt taskId a =
     (let nextTimers =
            (case pomodoroTimers_st a taskId of
               Some existing \<Rightarrow>
                 if gt0 (remainingSeconds existing)
                 then Some ((pomodoroTimers_st a)(taskId \<mapsto> existing\<lparr>isRunning := True\<rparr>))
                 else promptTimers prompt taskId (pomodoroTimers_st a)
             | None \<Rightarrow> promptTimers prompt taskId (pomodoroTimers_st a))
      in case nextTimers of
           None \<Rightarrow> a
         | Some nt \<Rightarrow> (persist (data a) nt a)\<lparr>pomodoroTimers_st := nt\<rparr>)"

subsection \<open>Completing, hiding and restoring a task\<close>

definition toggleDone :: "string \<Rightarrow> app \<Rightarrow> app" where
  "toggleDone taskId a =
     (let tasks' = map (\<lambda>t. if id_task t \<noteq> taskId then t
                             else if done_task t \<or> hidden t
                             then t\<lparr>done_task := False, hidden := False\<rparr>
                             else t\<lparr>done_task := True, hidden := True\<rparr>)
                     (tasks (data a))
      in persist ((data a)\<lparr>tasks := tasks'\<rparr>) (pomodoroTimers_st a) a)"

definition hideTask :: "string \<Rightarrow> app \<Rightarrow> app" where
  "hideTask taskId a =
     (let tasks' = map (\<lambda>t. if id_task t = taskId then t\<lparr>hidden := True, done_task := False\<rparr> else t)
                     (tasks (data a))
      in persist ((data a)\<lparr>tasks := tasks'\<rparr>) (pomodoroTimers_st a) a)"

definition restoreTask :: "string \<Rightarrow> app \<Rightarrow> app" where
  "restoreTask taskId a =
     (let tasks' = map (\<lambda>t. if id_task t = taskId then t\<lparr>hidden := False\<rparr> else t)
                     (tasks (data a))
      in persist ((data a)\<lparr>tasks := tasks'\<rparr>) (pomodoroTimers_st a) a)"

subsection \<open>Sorting with a comparator\<close>

text \<open>
  A comparator returns a number; \<open>Array.prototype.sort\<close> reads whether it is below zero,
  zero or above zero, and takes \<open>NaN\<close> for zero. The language fixes the result of
  \<open>xs.sort(cmp)\<close> when \<open>cmp\<close> is a consistent comparator for the elements of \<open>xs\<close>:
  it never returns \<open>NaN\<close> on them, every element is equal to itself, being equal is
  symmetric and transitive, and being below and being above are transitive.
\<close>

definition consistent_comparator :: "('a \<Rightarrow> 'a \<Rightarrow> jsnum) \<Rightarrow> 'a set \<Rightarrow> bool" where
  "consistent_comparator cmp S \<longleftrightarrow>
     (\<forall>a \<in> S. \<forall>b \<in> S. cmp a b \<noteq> NaN)
   \<and> (\<forall>a \<in> S. cmp a a = Fin 0)
   \<and> (\<forall>a \<in> S. \<forall>b \<in> S. cmp a b = Fin 0 \<longrightarrow> cmp b a = Fin 0)
   \<and> (\<forall>a \<in> S. \<forall>b \<in> S. \<forall>c \<in> S. cmp a b = Fin 0 \<and> cmp b c = Fin 0 \<longrightarrow> cmp a c = Fin 0)
   \<and> (\<forall>a \<in> S. \<forall>b \<in> S. \<forall>c \<in> S. lt0 (cmp a b) \<and> lt0 (cmp b c) \<longrightarrow> lt0 (cmp a c))
   \<and> (\<forall>a \<in> S. \<forall>b \<in> S. \<forall>c \<in> S. gt0 (cmp a b) \<and> gt0 (cmp b c) \<longrightarrow> gt0 (cmp a c))"

text \<open>
  For a consistent comparator the result is the stable sorted order: no element comes
  before one it is above, and elements that are equal keep their order. The insertion
  sort computes it.
\<close>

fun stable_insert :: "('a \<Rightarrow> 'a \<Rightarrow> jsnum) \<Rightarrow> 'a \<Rightarrow> 'a list \<Rightarrow> 'a list" where
  "stable_insert cmp x [] = [x]"
| "stable_insert cmp x (y # ys) =
     (if gt0 (cmp x y) then y # stable_insert cmp x ys else x # y # ys)"

fun stable_sort :: "('a \<Rightarrow> 'a \<Rightarrow> jsnum) \<Rightarrow> 'a list \<Rightarrow> 'a list" where
  "stable_sort cmp [] = []"
| "stable_sort cmp (x # xs) = stable_insert cmp x (stable_sort cmp xs)"

text \<open>
  For a comparator that is not consistent the language leaves the order to the engine,
  so the functions below that sort with such a comparator take the engine's
  \<open>Array.prototype.sort\<close> as a parameter \<open>srt\<close>. What the language requires of it: the
  result is a rearrangement of the array, and for a consistent comparator it is the stable
  sorted order.
\<close>

definition sort_conforms :: "(('a \<Rightarrow> 'a \<Rightarrow> jsnum) \<Rightarrow> 'a list \<Rightarrow> 'a list) \<Rightarrow> bool" where
  "sort_conforms srt \<longleftrightarrow>
     (\<forall>cmp xs. mset (srt cmp xs) = mset xs
        \<and> (consistent_comparator cmp (set xs) \<longrightarrow> srt cmp xs = stable_sort cmp xs))"






text \<open>
  \<open>String.prototype.localeCompare\<close> depends on the collation of the host; the functions
  that call it take it as the parameter \<open>lc\<close>. \<open>toLowerCase\<close> maps the capital letters
  among the code units of this theory, \<open>A\<close> to \<open>Z\<close> and U+00C0 to U+00DE without the
  multiplication sign U+00D7, to their small letters.
\<close>

definition toLowerCase :: "string \<Rightarrow> string" where
  "toLowerCase s =
     map (\<lambda>c. if ((65::nat) \<le> of_char c \<and> (of_char c :: nat) \<le> 90)
                \<or> ((192::nat) \<le> of_char c \<and> (of_char c :: nat) \<le> 222 \<and> (of_char c :: nat) \<noteq> 215)
              then char_of (of_char c + (32::nat)) else c) s"

subsection \<open>Categories\<close>

text \<open>
  \<open>addCategory()\<close>. The name and the colour are the hook states of the two inputs of the
  settings panel; \<open>srt\<close> is the engine's \<open>Array.prototype.sort\<close>.
\<close>

definition addCategory ::
  "((string \<Rightarrow> string \<Rightarrow> jsnum) \<Rightarrow> string list \<Rightarrow> string list) \<Rightarrow> (string \<Rightarrow> string \<Rightarrow> int)
     \<Rightarrow> app \<Rightarrow> app" where
  "addCategory srt lc a =
     (let name' = trim (newCategory a) in
      if name' = [] then a
      else if \<exists>cat \<in> set (categories (data a)). toLowerCase cat = toLowerCase name'
      then a\<lparr>newCategory := []\<rparr>
      else
        let categories' = srt (\<lambda>x y. Fin (of_int (lc x y))) (categories (data a) @ [name']);
            categoryColors' = obj_set (categoryColors (data a)) name' (newCategoryColor a);
            next = (data a)\<lparr>categories := categories', categoryColors := categoryColors'\<rparr>
        in (persist next (pomodoroTimers_st a) a)
             \<lparr>filterCategory := (if filterCategory a = ''All'' then filterCategory a else name'),
              newCategory := [],
              newCategoryColor := DEFAULT_CATEGORY_COLOR\<rparr>)"

text \<open>
  \<open>deleteCategory(categoryName)\<close>. When no category is left and \<open>General\<close> is not among
  them, \<open>fallbackCategory\<close> is \<open>undefined\<close>; a task that would receive it is not a task of
  this model, and the result is \<open>None\<close>.
\<close>

definition deleteCategory :: "string \<Rightarrow> app \<Rightarrow> app option" where
  "deleteCategory categoryName a =
     (if categoryName = ''General'' then Some a
      else
        let categories' = filter (\<lambda>item. item \<noteq> categoryName) (categories (data a));
            fallbackCategory =
              (if ''General'' \<in> set categories' then Some ''General''
               else case categories' of [] \<Rightarrow> None | c # rest \<Rightarrow> Some c);
            categoryColors' = obj_delete (categoryColors (data a)) categoryName
        in case those (map (\<lambda>t. if category t = categoryName
                                   then map_option (\<lambda>c. t\<lparr>category := c\<rparr>) fallbackCategory
                                   else Some t)
                         (tasks (data a))) of
             None \<Rightarrow> None
           | Some tasks' \<Rightarrow>
               Some ((persist ((data a)\<lparr>categories := categories',
                                         categoryColors := categoryColors',
                                         tasks := tasks'\<rparr>)
                        (pomodoroTimers_st a) a)
                     \<lparr>filterCategory := (if filterCategory a = categoryName then ''All''
                                          else filterCategory a)\<rparr>))"

subsection \<open>Manual reordering\<close>

text \<open>\<open>xs.findIndex(p)\<close>, with \<open>None\<close> for \<open>-1\<close>.\<close>

fun findIndex :: "('a \<Rightarrow> bool) \<Rightarrow> 'a list \<Rightarrow> nat option" where
  "findIndex p [] = None"
| "findIndex p (x # xs) = (if p x then Some 0 else map_option Suc (findIndex p xs))"

text \<open>\<open>Number.isFinite(task.order) ? Number(task.order) : index\<close>.\<close>

definition orderValue :: "nat \<Rightarrow> task \<Rightarrow> int" where
  "orderValue index t = (case order_task t of Some n \<Rightarrow> n | None \<Rightarrow> int index)"

text \<open>
  The tasks sorted by \<open>orderValue\<close>: the \<open>map\<close>, \<open>sort\<close>, \<open>map\<close> chain of
  \<open>reorderTasksWithinDay\<close> and of \<open>visibleTasks\<close>. The comparator is the difference of two
  finite numbers, a consistent comparator, so the result is the stable sorted order
  whatever the engine.
\<close>

definition byOrderValue :: "task list \<Rightarrow> task list" where
  "byOrderValue ts =
     map fst (stable_sort (\<lambda>x y. Fin (of_int (snd x - snd y)))
                (map (\<lambda>(index, t). (t, orderValue index t)) (enumerate 0 ts)))"

text \<open>
  \<open>reorderTasksWithinDay(sourceId, targetId)\<close>. The source is the hook state
  \<open>draggingId\<close>, which is \<open>null\<close> (here \<open>None\<close>) when nothing is dragged.
\<close>

definition reorderTasksWithinDay :: "string option \<Rightarrow> string \<Rightarrow> app \<Rightarrow> app" where
  "reorderTasksWithinDay sourceId targetId a =
     (if sourceId = None \<or> sourceId = Some [] \<or> targetId = [] \<or> sourceId = Some targetId
      then a\<lparr>draggingId := None\<rparr>
      else
        let sameDateTasks = filter (\<lambda>t. date t = selectedDate (data a)) (tasks (data a));
            otherTasks = filter (\<lambda>t. date t \<noteq> selectedDate (data a)) (tasks (data a));
            ordered = byOrderValue sameDateTasks
        in case (findIndex (\<lambda>t. Some (id_task t) = sourceId) ordered,
                 findIndex (\<lambda>t. id_task t = targetId) ordered) of
             (Some fromIndex, Some toIndex) \<Rightarrow>
               let moved = ordered ! fromIndex;
                   removed = take fromIndex ordered @ drop (Suc fromIndex) ordered;
                   reordered = take toIndex removed @ [moved] @ drop toIndex removed;
                   reindexed = map (\<lambda>(index, t). t\<lparr>order_task := Some (int index)\<rparr>)
                                 (enumerate 0 reordered);
                   next = (data a)\<lparr>tasks := otherTasks @ reindexed, sortBy := ''manual''\<rparr>
               in (persist next (pomodoroTimers_st a) a)\<lparr>sortBy_st := ''manual'', draggingId := None\<rparr>
           | _ \<Rightarrow> a\<lparr>draggingId := None\<rparr>)"

subsection \<open>The visible tasks\<close>







subsection \<open>The client-side normalizer\<close>

text \<open>
  The client applies its own \<open>normalizeState\<close> to what the server sends. It keeps the
  tasks as they are, so its result is a JavaScript value again.
\<close>

definition ALLOWED_SORT_BY :: "string list" where
  "ALLOWED_SORT_BY = [''priority'', ''category'', ''taskType'', ''createdAt'', ''manual'']"

fun is_array :: "json \<Rightarrow> bool" where
  "is_array (JArr xs) = True"
| "is_array v = False"

text \<open>
  One entry of \<open>normalizePomodoroTimers\<close>. The durations are finite numbers. The
  assignment \<open>normalized[taskId] = {...}\<close> with the key \<open>__proto__\<close> replaces the
  prototype and creates no property.
\<close>

definition normalizeTimer :: "env \<Rightarrow> json \<Rightarrow> json option" where
  "normalizeTimer E timer =
     do {
       durationCandidate \<leftarrow> js_Number E (get timer ''durationSeconds'');
       let durationSeconds =
             (case durationCandidate of
                Fin q \<Rightarrow> if 0 < q then of_int \<lfloor>q\<rfloor> else 1800
              | _ \<Rightarrow> (1800 :: rat));
       remainingCandidate \<leftarrow> js_Number E (get timer ''remainingSeconds'');
       let remainingSeconds =
             (case remainingCandidate of
                Fin q \<Rightarrow> max 0 (min durationSeconds (of_int \<lfloor>q\<rfloor>))
              | _ \<Rightarrow> durationSeconds);
       Some (JObj [(''remainingSeconds'', JNum (Fin remainingSeconds)),
                   (''durationSeconds'', JNum (Fin durationSeconds)),
                   (''isRunning'', JBool (truthy (get timer ''isRunning'') \<and> 0 < remainingSeconds))])
     }"

fun collectTimers :: "env \<Rightarrow> json jsobj \<Rightarrow> (string \<times> json) list \<Rightarrow> json jsobj option" where
  "collectTimers E normalized [] = Some normalized"
| "collectTimers E normalized ((taskId, timer) # rest) =
     (if taskId = [] \<or> \<not> truthy timer \<or> \<not> typeof_object timer
      then collectTimers E normalized rest
      else do {
        t \<leftarrow> normalizeTimer E timer;
        collectTimers E
          (if taskId = ''__proto__'' then normalized else obj_set normalized taskId t) rest
      })"

definition normalizePomodoroTimers :: "env \<Rightarrow> json \<Rightarrow> json jsobj option" where
  "normalizePomodoroTimers E rawTimers =
     (if \<not> truthy rawTimers \<or> \<not> typeof_object rawTimers then Some []
      else collectTimers E [] (entries rawTimers))"

text \<open>
  \<open>buildCategoryColors(rawCategoryColors, categories)\<close>. Unlike the server it keeps the
  keys as they are, the empty key included.
\<close>

fun collectClientColors ::
  "env \<Rightarrow> string jsobj \<Rightarrow> (string \<times> json) list \<Rightarrow> string jsobj option" where
  "collectClientColors E colors [] = Some colors"
| "collectClientColors E colors ((key, val) # rest) =
     do {
       v \<leftarrow> map_option trim (js_String E (js_or val (JStr [])));
       collectClientColors E (if hex_color v then obj_assign colors key v else colors) rest
     }"

definition buildCategoryColors :: "env \<Rightarrow> json \<Rightarrow> string list \<Rightarrow> string jsobj option" where
  "buildCategoryColors E rawCategoryColors cats =
     do {
       collected \<leftarrow> (if truthy rawCategoryColors \<and> typeof_object rawCategoryColors
                    then collectClientColors E [] (entries rawCategoryColors) else Some []);
       Some (fillColors collected (if cats \<noteq> [] then cats else [''General'']))
     }"

text \<open>\<open>typeof v === "string" && v ? v : d\<close>, and \<open>ALLOWED_SORT_BY.has(v) ? v : d\<close>.\<close>

definition string_or :: "json \<Rightarrow> string \<Rightarrow> string" where
  "string_or v d = (case v of JStr s \<Rightarrow> if s \<noteq> [] then s else d | _ \<Rightarrow> d)"

definition sort_or :: "json \<Rightarrow> string \<Rightarrow> string" where
  "sort_or v d = (case v of JStr s \<Rightarrow> if s \<in> set ALLOWED_SORT_BY then s else d | _ \<Rightarrow> d)"

text \<open>The object that \<open>normalizeState\<close> of the client returns.\<close>

definition client_json ::
  "json list \<Rightarrow> string list \<Rightarrow> string jsobj \<Rightarrow> string \<Rightarrow> string \<Rightarrow> json jsobj \<Rightarrow> json" where
  "client_json ts cats colors selected mode timers =
     JObj [(''tasks'', JArr ts),
           (''categories'', JArr (map JStr cats)),
           (''categoryColors'', JObj (map (\<lambda>(k, v). (k, JStr v)) colors)),
           (''selectedDate'', JStr selected),
           (''sortBy'', JStr mode),
           (''pomodoroTimers'', JObj timers)]"

definition normalizeState_client :: "env \<Rightarrow> json \<Rightarrow> json option" where
  "normalizeState_client E raw =
     (if \<not> truthy raw \<or> \<not> typeof_object raw
      then Some (client_json [] [''General''] [(''General'', DEFAULT_CATEGORY_COLOR)]
                   (today E) ''priority'' [])
      else do {
        let tasks' = array_or (get raw ''tasks'') [];
        cats \<leftarrow> (if is_array (get raw ''categories'')
                 then map_option (\<lambda>strs. dedupe (filter (\<lambda>s. s \<noteq> []) strs))
                        (those (map (\<lambda>x. map_option trim (js_String E (js_or x (JStr []))))
                                  (array_or (get raw ''categories'') [])))
                 else Some [''General'']);
        colors \<leftarrow> buildCategoryColors E (get raw ''categoryColors'') cats;
        timers \<leftarrow> normalizePomodoroTimers E (get raw ''pomodoroTimers'');
        Some (client_json tasks'
                (if cats \<noteq> [] then cats else [''General''])
                colors
                (string_or (get raw ''selectedDate'') (today E))
                (sort_or (get raw ''sortBy'') ''priority'')
                timers)
      })"

subsection \<open>The progress percentage\<close>

text \<open>
  \<open>getPomodoroProgressPercent(remainingSeconds, durationSeconds)\<close>, called with the two
  numbers of a timer. \<open>Number\<close> of a number is that number.
\<close>

definition getPomodoroProgressPercent :: "jsnum \<Rightarrow> jsnum \<Rightarrow> jsnum" where
  "getPomodoroProgressPercent remainingSeconds_arg durationSeconds_arg =
     (let safeDuration = num_max (Fin 1) (num_or durationSeconds_arg DEFAULT_POMODORO_SECONDS);
          remaining = num_max (Fin 0) (num_min safeDuration (num_or remainingSeconds_arg (Fin 0)));
          elapsed = dbl_sub safeDuration remaining
      in math_round (dbl_mul (dbl_div elapsed safeDuration) (Fin 100)))"

text \<open>
  The formula of the specification, \<open>round(100 * (duration - remaining) / max(1, duration))\<close>,
  on whole numbers of seconds, in exact arithmetic.
\<close>

definition progress_spec :: "int \<Rightarrow> int \<Rightarrow> rat" where
  "progress_spec remaining duration =
     100 * (of_int duration - of_int remaining) / of_int (max 1 duration)"

section \<open>The invariants of the data model\<close>

text \<open>
  Every task's category is one of the categories, \<open>General\<close> is one of the categories,
  and every category has an own entry in \<open>categoryColors\<close> that matches
  \<open>^#[0-9a-fA-F]{6}$\<close>. Stated for the server's document and for the client's.
\<close>

definition categories_valid :: "'a doc_scheme \<Rightarrow> bool" where
  "categories_valid d \<longleftrightarrow>
     (\<forall>t \<in> set (tasks d). category t \<in> set (categories d))
     \<and> ''General'' \<in> set (categories d)
     \<and> (\<forall>c \<in> set (categories d).
           case map_of (categoryColors d) c of Some v \<Rightarrow> hex_color v | None \<Rightarrow> False)"

text \<open>Every own value of a colour object matches \<open>^#[0-9a-fA-F]{6}$\<close>.\<close>

definition values_hex :: "string jsobj \<Rightarrow> bool" where
  "values_hex obj \<longleftrightarrow> (\<forall>v \<in> snd ` set obj. hex_color v)"




text \<open>The own keys of a colour object are distinct, and \<open>__proto__\<close> is not one.\<close>

definition own_keys_ok :: "string jsobj \<Rightarrow> bool" where
  "own_keys_ok obj \<longleftrightarrow> distinct (map fst obj) \<and> ''__proto__'' \<notin> fst ` set obj"

section \<open>Example states\<close>

text \<open>Concrete tasks and hook states, used to evaluate the handlers.\<close>

definition example_task :: task where
  "example_task = \<lparr>id_task = ''t1'', name = ''Report'', description = [],
      priority = ''Medium'', category = ''General'', taskType = ''Work'', meetingTime = [],
      date = ''2026-11-03'', done_task = False, hidden = False,
      createdAt = Fin 1793700000000, order_task = None\<rparr>"

definition app_with :: "task list \<Rightarrow> app" where
  "app_with ts = (initialApp env0)\<lparr>data := (createDefaultState env0)\<lparr>tasks := ts\<rparr>\<rparr>"

definition app_expired :: app where
  "app_expired = (initialApp env0)\<lparr>pomodoroTimers_st :=
      [''t'' \<mapsto> \<lparr>remainingSeconds = Fin 0, durationSeconds = Fin 1500, isRunning = False\<rparr>]\<rparr>"

text \<open>
  The timers after the prompt of \<open>startPomodoro\<close> was answered with 300239975158034
  minutes for the task \<open>t\<close>.
\<close>

definition timers_long :: timers where
  "timers_long = pomodoroTimers_st (startPomodoro (Some ''300239975158034'') ''t'' (initialApp env0))"

text \<open>Two tasks of the selected day and one of another day.\<close>

definition app_three :: app where
  "app_three =
     app_with [example_task,
               example_task\<lparr>id_task := ''t2'', name := ''Slides'', date := ''2026-11-04''\<rparr>,
               example_task\<lparr>id_task := ''t3'', name := ''Review''\<rparr>]"






text \<open>Documents sent to the server.\<close>

definition doc_blank_priority :: json where
  "doc_blank_priority =
     JObj [(''tasks'', JArr [JObj [(''id'', JStr ''t1''), (''priority'', JArr [])]])]"

definition doc_done_visible :: json where
  "doc_done_visible =
     JObj [(''tasks'', JArr [JObj [(''id'', JStr ''t1''), (''done'', JBool True)]])]"

definition doc_constructor :: json where
  "doc_constructor = JObj [(''categories'', JArr [JStr ''constructor''])]"

definition doc_work_manual :: json where
  "doc_work_manual =
     JObj [(''categories'', JArr [JStr ''Work'']),
           (''tasks'', JArr [JObj [(''id'', JStr ''t1''), (''order'', JNum (Fin 0))]]),
           (''sortBy'', JStr ''manual''),
           (''pomodoroTimers'',
              JObj [(''t1'', JObj [(''remainingSeconds'', JNum (Fin 90)),
                                   (''durationSeconds'', JNum (Fin 300)),
                                   (''isRunning'', JBool True)])])]"

text \<open>What the server returns for \<open>doc_work_manual\<close>.\<close>

definition normalized_work :: doc where
  "normalized_work =
     \<lparr>tasks = [\<lparr>id_task = ''t1'', name = [], description = [], priority = ''Medium'',
                category = ''General'', taskType = ''Work'', meetingTime = [],
                date = ''2026-11-03'', done_task = False, hidden = False,
                createdAt = Fin 1793700000000, order_task = None\<rparr>],
      categories = [''General'', ''Work''],
      categoryColors = [(''General'', ''#4f8dfd''), (''Work'', ''#4f8dfd'')],
      selectedDate = ''2026-11-03''\<rparr>"

section \<open>Properties\<close>

subsection \<open>Lists, objects and the normalizer\<close>

lemma those_map_Some:
  "those (map f xs) = Some ys \<Longrightarrow> list_all2 (\<lambda>x y. f x = Some y) xs ys"
proof (induction xs arbitrary: ys)
  case Nil
  then show ?case by simp
next
  case (Cons x xs)
  then show ?case by (auto split: option.splits)
qed

lemma set_dedupe_acc:
  "set (foldl (\<lambda>seen x. if x \<in> set seen then seen else seen @ [x]) acc xs) = set acc \<union> set xs"
  by (induction xs arbitrary: acc) auto

lemma set_dedupe: "set (dedupe xs) = set xs"
  by (simp add: dedupe_def set_dedupe_acc)

lemma distinct_dedupe_acc:
  "distinct acc \<Longrightarrow> distinct (foldl (\<lambda>seen x. if x \<in> set seen then seen else seen @ [x]) acc xs)"
  by (induction xs arbitrary: acc) auto

lemma distinct_dedupe: "distinct (dedupe xs)"
  by (simp add: dedupe_def distinct_dedupe_acc)

lemma normalizeCategories_General:
  assumes "normalizeCategories E x = Some cs"
  shows "''General'' \<in> set cs" and "[] \<notin> set cs"
proof -
  from assms obtain strs where
    cs: "cs = (if ''General'' \<in> set (dedupe (filter (\<lambda>s. s \<noteq> []) strs))
               then dedupe (filter (\<lambda>s. s \<noteq> []) strs)
               else ''General'' # dedupe (filter (\<lambda>s. s \<noteq> []) strs))"
    by (auto simp: normalizeCategories_def Let_def bind_eq_Some_conv)
  show "''General'' \<in> set cs" by (simp add: cs)
  show "[] \<notin> set cs" by (simp add: cs set_dedupe)
qed

lemma js_or_falsy_String:
  "js_String E (js_or v (JStr [])) = Some c \<Longrightarrow> c \<noteq> [] \<Longrightarrow> js_String E v = Some c"
  by (auto simp: js_or_def split: if_splits)

lemma safeTask_category:
  assumes "safeTask E cs i raw = Some t" and "''General'' \<in> set cs" and "[] \<notin> set cs"
  shows "category t \<in> set cs"
proof -
  from assms(1) obtain c where
    c: "js_String E (js_or (get raw ''category'') (JStr [])) = Some c" and
    t: "(if c \<in> set cs then js_String E (get raw ''category'') else Some ''General'') = Some (category t)"
    by (auto simp: safeTask_def bind_eq_Some_conv)
  show ?thesis
  proof (cases "c \<in> set cs")
    case True
    with assms(3) have "c \<noteq> []" by auto
    from js_or_falsy_String[OF c this] t True show ?thesis by simp
  next
    case False
    with t assms(2) show ?thesis by auto
  qed
qed

lemma set_obj_insert: "set (obj_insert k v obj) = insert (k, v) (set obj)"
  by (induction obj) (auto split: if_splits)

lemma map_of_obj_insert:
  "k \<notin> fst ` set obj \<Longrightarrow> map_of (obj_insert k v obj) = (map_of obj)(k \<mapsto> v)"
  by (induction obj) (auto simp: fun_eq_iff)

lemma map_of_map_upd:
  "map_of (map (\<lambda>(k', v'). if k' = k then (k', v) else (k', v')) obj) k'' =
     (if k'' = k then (if k \<in> fst ` set obj then Some v else None) else map_of obj k'')"
  by (induction obj) (auto simp: image_iff, force+)

lemma map_of_snoc:
  "k \<notin> fst ` set obj \<Longrightarrow> map_of (obj @ [(k, v)]) = (map_of obj)(k \<mapsto> v)"
  by (induction obj) (auto simp: fun_eq_iff)

lemma map_of_obj_set: "map_of (obj_set obj k v) = (map_of obj)(k \<mapsto> v)"
proof (rule ext)
  fix k'
  show "map_of (obj_set obj k v) k' = ((map_of obj)(k \<mapsto> v)) k'"
  proof (cases "k \<in> fst ` set obj")
    case True
    then show ?thesis by (simp add: obj_set_def map_of_map_upd)
  next
    case False
    then show ?thesis
      by (simp add: obj_set_def map_of_obj_insert map_of_snoc del: map_of_append)
  qed
qed

lemma snd_obj_set: "snd ` set (obj_set obj k v) \<subseteq> insert v (snd ` set obj)"
  by (auto simp: obj_set_def set_obj_insert split: if_splits)

lemma values_hex_obj_set: "values_hex obj \<Longrightarrow> hex_color v \<Longrightarrow> values_hex (obj_set obj k v)"
  using snd_obj_set[of obj k v] unfolding values_hex_def by blast

lemma values_hex_obj_assign: "values_hex obj \<Longrightarrow> hex_color v \<Longrightarrow> values_hex (obj_assign obj k v)"
  by (simp add: obj_assign_def values_hex_obj_set)

lemma hex_DEFAULT: "hex_color DEFAULT_CATEGORY_COLOR"
  by (simp add: DEFAULT_CATEGORY_COLOR_def hex_color_def is_hex_def)

lemma hex_color_nonempty: "hex_color v \<Longrightarrow> v \<noteq> []"
  by (auto simp: hex_color_def)

lemma values_hex_lookup: "values_hex obj \<Longrightarrow> map_of obj c = Some v \<Longrightarrow> hex_color v"
  unfolding values_hex_def by (metis image_eqI map_of_SomeD snd_conv)

lemma collectColors_hex:
  "collectColors E acc kvs = Some obj \<Longrightarrow> values_hex acc \<Longrightarrow> values_hex obj"
proof (induction kvs arbitrary: acc)
  case Nil
  then show ?case by simp
next
  case (Cons kv kvs)
  obtain key val where kv: "kv = (key, val)" by (cases kv)
  from Cons.prems(1) obtain color where
    r: "collectColors E (if trim key \<noteq> [] \<and> hex_color color then obj_assign acc (trim key) color else acc) kvs = Some obj"
    by (auto simp: kv Let_def bind_eq_Some_conv)
  have "values_hex (if trim key \<noteq> [] \<and> hex_color color then obj_assign acc (trim key) color else acc)"
    using Cons.prems(2) by (simp add: values_hex_obj_assign)
  from Cons.IH[OF r this] show ?case .
qed

lemma fill_step_hex:
  "values_hex acc \<Longrightarrow>
   values_hex (if \<not> obj_truthy acc c then obj_assign acc c DEFAULT_CATEGORY_COLOR else acc)"
  by (simp add: values_hex_obj_assign hex_DEFAULT)

lemma fillColors_hex: "values_hex acc \<Longrightarrow> values_hex (fillColors acc cs)"
  unfolding fillColors_def
  by (induction cs arbitrary: acc) (simp_all add: values_hex_obj_assign hex_DEFAULT)

lemma obj_truthy_assign:
  "obj_truthy acc c \<Longrightarrow> v \<noteq> [] \<Longrightarrow> obj_truthy (obj_assign acc k v) c"
  by (auto simp: obj_truthy_def obj_assign_def map_of_obj_set split: option.splits)

lemma obj_truthy_step:
  "values_hex acc \<Longrightarrow>
   obj_truthy (if \<not> obj_truthy acc c then obj_assign acc c DEFAULT_CATEGORY_COLOR else acc) c"
proof (cases "obj_truthy acc c")
  case True
  then show ?thesis by simp
next
  case False
  assume h: "values_hex acc"
  have none: "map_of acc c = None"
  proof (cases "map_of acc c")
    case None
    then show ?thesis .
  next
    case (Some v)
    with h have "v \<noteq> []" using values_hex_lookup hex_color_nonempty by blast
    with Some False show ?thesis by (simp add: obj_truthy_def)
  qed
  with False have "c \<notin> set Object_prototype_keys" by (simp add: obj_truthy_def)
  then have "c \<noteq> ''__proto__''" by (auto simp: Object_prototype_keys_def)
  then show ?thesis
    using False hex_color_nonempty[OF hex_DEFAULT]
    by (simp add: obj_assign_def obj_truthy_def map_of_obj_set)
qed

lemma fillColors_keeps:
  "obj_truthy acc c \<Longrightarrow> obj_truthy (fillColors acc cs) c"
  unfolding fillColors_def
proof (induction cs arbitrary: acc)
  case Nil
  then show ?case by simp
next
  case (Cons x xs)
  have "obj_truthy (if \<not> obj_truthy acc x then obj_assign acc x DEFAULT_CATEGORY_COLOR else acc) c"
    using Cons.prems hex_color_nonempty[OF hex_DEFAULT] by (simp add: obj_truthy_assign)
  from Cons.IH[OF this] show ?case by simp
qed

lemma fillColors_truthy:
  "values_hex acc \<Longrightarrow> c \<in> set cs \<Longrightarrow> obj_truthy (fillColors acc cs) c"
proof (induction cs arbitrary: acc)
  case Nil
  then show ?case by simp
next
  case (Cons x xs)
  let ?acc' = "if \<not> obj_truthy acc x then obj_assign acc x DEFAULT_CATEGORY_COLOR else acc"
  have f: "fillColors acc (x # xs) = fillColors ?acc' xs"
    by (simp add: fillColors_def)
  have h: "values_hex ?acc'" using Cons.prems(1) by (rule fill_step_hex)
  show ?case
  proof (cases "c = x")
    case True
    have "obj_truthy ?acc' c" unfolding True using Cons.prems(1) by (rule obj_truthy_step)
    then show ?thesis unfolding f by (rule fillColors_keeps)
  next
    case False
    with Cons.prems(2) have "c \<in> set xs" by simp
    from Cons.IH[OF h this] show ?thesis unfolding f .
  qed
qed

lemma normalizeState_colors:
  assumes "normalizeState E x = Some d"
  shows "values_hex (categoryColors d)" and "\<forall>c \<in> set (categories d). obj_truthy (categoryColors d) c"
proof -
  from assms obtain cs collected where
    c: "(if truthy (get x ''categoryColors'') \<and> typeof_object (get x ''categoryColors'')
         then collectColors E [] (entries (get x ''categoryColors'')) else Some []) = Some collected"
    and d: "categoryColors d = fillColors collected cs" "categories d = cs"
    by (auto simp: normalizeState_def Let_def bind_eq_Some_conv)
  have e: "values_hex []" by (simp add: values_hex_def)
  have "values_hex collected"
  proof (cases "truthy (get x ''categoryColors'') \<and> typeof_object (get x ''categoryColors'')")
    case True
    with c have "collectColors E [] (entries (get x ''categoryColors'')) = Some collected" by simp
    from collectColors_hex[OF this e] show ?thesis .
  next
    case False
    with c e show ?thesis by auto
  qed
  then show "values_hex (categoryColors d)"
    by (simp add: d fillColors_hex)
  show "\<forall>c \<in> set (categories d). obj_truthy (categoryColors d) c"
    using \<open>values_hex collected\<close> by (simp add: d fillColors_truthy)
qed

lemma safeTask_flags:
  "safeTask E cs i raw = Some t \<Longrightarrow>
     done_task t = truthy (get raw ''done'') \<and> hidden t = truthy (get raw ''hidden'')"
  by (auto simp: safeTask_def Let_def bind_eq_Some_conv)

lemma normalizeState_tasks:
  assumes "normalizeState E x = Some d"
  shows "\<exists>cs. normalizeCategories E x = Some cs \<and> categories d = cs \<and>
           list_all2 (\<lambda>p t. safeTask E cs (fst p) (snd p) = Some t)
             (enumerate 0 (filter (\<lambda>t. truthy t \<and> typeof_object t) (array_or (get x ''tasks'') [])))
             (tasks d)"
proof -
  from assms obtain cs ts where
    cs: "normalizeCategories E x = Some cs" and
    ts: "those (map (\<lambda>(i, t). safeTask E cs i t)
           (enumerate 0 (filter (\<lambda>t. truthy t \<and> typeof_object t) (array_or (get x ''tasks'') [])))) = Some ts" and
    d: "tasks d = ts" "categories d = cs"
    by (auto simp: normalizeState_def Let_def bind_eq_Some_conv)
  from those_map_Some[OF ts] have
    "list_all2 (\<lambda>p t. safeTask E cs (fst p) (snd p) = Some t)
       (enumerate 0 (filter (\<lambda>t. truthy t \<and> typeof_object t) (array_or (get x ''tasks'') []))) ts"
    by (simp add: case_prod_beta)
  with cs d show ?thesis by simp
qed

lemma normalizeState_valid:
  assumes "normalizeState E x = Some d"
  shows "\<forall>t \<in> set (tasks d). category t \<in> set (categories d)"
    and "''General'' \<in> set (categories d)"
    and "\<forall>c \<in> set (categories d). c \<notin> set Object_prototype_keys \<longrightarrow>
           (\<exists>v. map_of (categoryColors d) c = Some v \<and> hex_color v)"
proof -
  from normalizeState_tasks[OF assms] obtain cs where
    cs: "normalizeCategories E x = Some cs" "categories d = cs" and
    l: "list_all2 (\<lambda>p t. safeTask E cs (fst p) (snd p) = Some t)
             (enumerate 0 (filter (\<lambda>t. truthy t \<and> typeof_object t) (array_or (get x ''tasks'') [])))
             (tasks d)"
    by blast
  note g = normalizeCategories_General[OF cs(1)]
  show "''General'' \<in> set (categories d)" using g(1) cs(2) by simp
  show "\<forall>t \<in> set (tasks d). category t \<in> set (categories d)"
  proof
    fix t assume "t \<in> set (tasks d)"
    then obtain n where n: "n < length (tasks d)" "t = tasks d ! n"
      by (auto simp: in_set_conv_nth)
    with l obtain p where "safeTask E cs (fst p) (snd p) = Some t"
      by (auto simp: list_all2_conv_all_nth)
    from safeTask_category[OF this g] cs(2) show "category t \<in> set (categories d)" by simp
  qed
  note c = normalizeState_colors[OF assms]
  show "\<forall>c \<in> set (categories d). c \<notin> set Object_prototype_keys \<longrightarrow>
           (\<exists>v. map_of (categoryColors d) c = Some v \<and> hex_color v)"
  proof (intro ballI impI)
    fix k assume k: "k \<in> set (categories d)" "k \<notin> set Object_prototype_keys"
    with c(2) have "obj_truthy (categoryColors d) k" by blast
    with k(2) obtain v where v: "map_of (categoryColors d) k = Some v"
      by (auto simp: obj_truthy_def split: option.splits)
    from values_hex_lookup[OF c(1) v] v
    show "\<exists>v. map_of (categoryColors d) k = Some v \<and> hex_color v" by blast
  qed
qed

lemma mset_stable_insert: "mset (stable_insert cmp x ys) = add_mset x (mset ys)"
  by (induction ys) auto

lemma mset_stable_sort: "mset (stable_sort cmp xs) = mset xs"
  by (induction xs) (auto simp: mset_stable_insert)









lemma sort_conforms_set: "sort_conforms srt \<Longrightarrow> set (srt cmp xs) = set xs"
  unfolding sort_conforms_def by (metis set_mset_mset)

text \<open>The comparator of \<open>byOrderValue\<close> is consistent.\<close>

lemma orderValue_consistent:
  "consistent_comparator (\<lambda>x y. Fin (of_int (snd x - snd y))) S"
  by (auto simp: consistent_comparator_def)

lemma addCategory_valid:
  assumes "sort_conforms srt" and "categories_valid (data a)" and "hex_color (newCategoryColor a)"
  shows "categories_valid (data (addCategory srt lc a))"
proof -
  let ?n = "trim (newCategory a)"
  show ?thesis
  proof (cases "?n = [] \<or> (\<exists>cat \<in> set (categories (data a)). toLowerCase cat = toLowerCase ?n)")
    case True
    then have "data (addCategory srt lc a) = data a"
      by (auto simp: addCategory_def Let_def)
    with assms(2) show ?thesis by simp
  next
    case False
    then have d: "data (addCategory srt lc a) =
        (data a)\<lparr>categories := srt (\<lambda>x y. Fin (of_int (lc x y))) (categories (data a) @ [?n]),
                  categoryColors := obj_set (categoryColors (data a)) ?n (newCategoryColor a),
                  pomodoroTimers := pomodoroTimers_st a\<rparr>"
      by (simp add: addCategory_def Let_def persist_def)
    show ?thesis
      using assms(2,3) unfolding d categories_valid_def
      by (auto simp: sort_conforms_set[OF assms(1)] map_of_obj_set)
  qed
qed

lemma those_map_Some_all: "those (map (\<lambda>x. Some (g x)) xs) = Some (map g xs)"
  by (induction xs) auto

lemma map_of_obj_delete: "map_of (obj_delete obj k) = (map_of obj)(k := None)"
  unfolding obj_delete_def
  by (induction obj) (auto simp: fun_eq_iff)

lemma deleteCategory_valid:
  assumes "categories_valid (data a)"
  shows "\<exists>a'. deleteCategory categoryName a = Some a' \<and> categories_valid (data a')"
proof (cases "categoryName = ''General''")
  case True
  with assms show ?thesis by (simp add: deleteCategory_def)
next
  case False
  from assms have g: "''General'' \<in> set (categories (data a))"
    by (simp add: categories_valid_def)
  with False have g': "''General'' \<in> set (filter (\<lambda>item. item \<noteq> categoryName) (categories (data a)))"
    by simp
  let ?f = "\<lambda>t. if category t = categoryName then t\<lparr>category := ''General''\<rparr> else t"
  have l: "(\<lambda>t. if category t = categoryName
              then map_option (\<lambda>c. t\<lparr>category := c\<rparr>) (Some ''General'') else Some t)
           = (\<lambda>t. Some (?f t))"
    by (rule ext) simp
  have d: "deleteCategory categoryName a =
      Some ((persist ((data a)\<lparr>categories := filter (\<lambda>item. item \<noteq> categoryName) (categories (data a)),
                               categoryColors := obj_delete (categoryColors (data a)) categoryName,
                               tasks := map ?f (tasks (data a))\<rparr>)
               (pomodoroTimers_st a) a)
            \<lparr>filterCategory := (if filterCategory a = categoryName then ''All'' else filterCategory a)\<rparr>)"
    using False g'
    by (simp add: deleteCategory_def Let_def l those_map_Some_all del: set_filter)
  have "categories_valid
      ((data a)\<lparr>categories := filter (\<lambda>item. item \<noteq> categoryName) (categories (data a)),
                categoryColors := obj_delete (categoryColors (data a)) categoryName,
                tasks := map ?f (tasks (data a)),
                pomodoroTimers := pomodoroTimers_st a\<rparr>)"
    using assms False unfolding categories_valid_def
    by (auto simp: map_of_obj_delete)
  then show ?thesis
    unfolding d by (simp add: persist_def)
qed

lemma toggleDone_tasks:
  "tasks (data (toggleDone taskId a)) =
     map (\<lambda>t. if id_task t \<noteq> taskId then t
              else if done_task t \<or> hidden t then t\<lparr>done_task := False, hidden := False\<rparr>
              else t\<lparr>done_task := True, hidden := True\<rparr>) (tasks (data a))"
  by (simp add: toggleDone_def persist_def Let_def)

lemma hideTask_tasks:
  "tasks (data (hideTask taskId a)) =
     map (\<lambda>t. if id_task t = taskId then t\<lparr>hidden := True, done_task := False\<rparr> else t) (tasks (data a))"
  by (simp add: hideTask_def persist_def Let_def)

subsection \<open>Reordering\<close>

lemma findIndex_Some:
  "findIndex p xs = Some i \<Longrightarrow> i < length xs \<and> p (xs ! i)"
proof (induction xs arbitrary: i)
  case Nil
  then show ?case by simp
next
  case (Cons x xs)
  then show ?case by (auto split: if_splits)
qed

lemma findIndex_None: "findIndex p xs = None \<longleftrightarrow> (\<forall>x \<in> set xs. \<not> p x)"
  by (induction xs) auto

lemma map_fst_enumerate_pairs:
  "map fst (map (\<lambda>(index, t). (t, f index t)) (enumerate n ts)) = ts"
  by (induction ts arbitrary: n) auto

lemma mset_byOrderValue: "mset (byOrderValue ts) = mset ts"
proof -
  have "mset (byOrderValue ts) =
      image_mset fst (mset (stable_sort (\<lambda>x y. Fin (of_int (snd x - snd y)))
                (map (\<lambda>(index, t). (t, orderValue index t)) (enumerate 0 ts))))"
    by (simp add: byOrderValue_def)
  also have "\<dots> = image_mset fst (mset (map (\<lambda>(index, t). (t, orderValue index t)) (enumerate 0 ts)))"
    by (simp only: mset_stable_sort)
  also have "\<dots> = mset (map fst (map (\<lambda>(index, t). (t, orderValue index t)) (enumerate 0 ts)))"
    by (simp only: mset_map)
  also have "\<dots> = mset ts"
    by (simp only: map_fst_enumerate_pairs)
  finally show ?thesis .
qed

lemma set_byOrderValue: "set (byOrderValue ts) = set ts"
  using mset_byOrderValue[of ts] by (metis set_mset_mset)

lemma mset_move:
  assumes "f < length xs"
  shows "mset (take t (take f xs @ drop (Suc f) xs) @ [xs ! f] @ drop t (take f xs @ drop (Suc f) xs))
           = mset xs"
proof -
  let ?r = "take f xs @ drop (Suc f) xs"
  have "mset (take t ?r @ [xs ! f] @ drop t ?r) = add_mset (xs ! f) (mset (take t ?r @ drop t ?r))"
    by simp
  also have "\<dots> = add_mset (xs ! f) (mset ?r)"
    by (simp only: append_take_drop_id)
  also have "\<dots> = mset (take f xs @ xs ! f # drop (Suc f) xs)"
    by simp
  also have "\<dots> = mset xs"
    using assms by (simp only: id_take_nth_drop[symmetric])
  finally show ?thesis .
qed

lemma reindex_fields:
  "map id_task (map (\<lambda>(index, t). t\<lparr>order_task := Some (int index)\<rparr>) (enumerate n ts)) = map id_task ts"
  "map date (map (\<lambda>(index, t). t\<lparr>order_task := Some (int index)\<rparr>) (enumerate n ts)) = map date ts"
  "map order_task (map (\<lambda>(index, t). t\<lparr>order_task := Some (int index)\<rparr>) (enumerate n ts))
     = map (\<lambda>i. Some (int i)) [n..<n + length ts]"
  "map (\<lambda>t. t\<lparr>order_task := None\<rparr>) (map (\<lambda>(index, t). t\<lparr>order_task := Some (int index)\<rparr>) (enumerate n ts))
     = map (\<lambda>t. t\<lparr>order_task := None\<rparr>) ts"
proof -
  show "map id_task (map (\<lambda>(index, t). t\<lparr>order_task := Some (int index)\<rparr>) (enumerate n ts)) = map id_task ts"
    by (induction ts arbitrary: n) auto
  show "map date (map (\<lambda>(index, t). t\<lparr>order_task := Some (int index)\<rparr>) (enumerate n ts)) = map date ts"
    by (induction ts arbitrary: n) auto
  show "map order_task (map (\<lambda>(index, t). t\<lparr>order_task := Some (int index)\<rparr>) (enumerate n ts))
     = map (\<lambda>i. Some (int i)) [n..<n + length ts]"
  proof (induction ts arbitrary: n)
    case Nil
    show ?case by simp
  next
    case (Cons t ts)
    have e: "n + length (t # ts) = Suc n + length ts"
      by simp
    have u: "[n..<Suc n + length ts] = n # [Suc n..<Suc n + length ts]"
      by (rule upt_conv_Cons) simp
    show ?case
      unfolding e u using Cons.IH[of "Suc n"] by simp
  qed
  show "map (\<lambda>t. t\<lparr>order_task := None\<rparr>) (map (\<lambda>(index, t). t\<lparr>order_task := Some (int index)\<rparr>) (enumerate n ts))
     = map (\<lambda>t. t\<lparr>order_task := None\<rparr>) ts"
    by (induction ts arbitrary: n) auto
qed

lemma filter_all: "\<forall>x \<in> set xs. P x \<Longrightarrow> filter P xs = xs"
  by (induction xs) auto

lemma filter_none: "\<forall>x \<in> set xs. \<not> P x \<Longrightarrow> filter P xs = []"
  by (induction xs) auto

text \<open>The two outcomes of \<open>reorderTasksWithinDay\<close>.\<close>

lemma reorder_noop:
  assumes "sourceId = None \<or> sourceId = Some [] \<or> targetId = [] \<or> sourceId = Some targetId
         \<or> (\<forall>t \<in> set (filter (\<lambda>t. date t = selectedDate (data a)) (tasks (data a))). Some (id_task t) \<noteq> sourceId)
         \<or> (\<forall>t \<in> set (filter (\<lambda>t. date t = selectedDate (data a)) (tasks (data a))). id_task t \<noteq> targetId)"
  shows "reorderTasksWithinDay sourceId targetId a = a\<lparr>draggingId := None\<rparr>"
proof (cases "sourceId = None \<or> sourceId = Some [] \<or> targetId = [] \<or> sourceId = Some targetId")
  case True
  then show ?thesis by (simp add: reorderTasksWithinDay_def)
next
  case False
  let ?same = "filter (\<lambda>t. date t = selectedDate (data a)) (tasks (data a))"
  from False assms have
    "(\<forall>t \<in> set (byOrderValue ?same). Some (id_task t) \<noteq> sourceId)
     \<or> (\<forall>t \<in> set (byOrderValue ?same). id_task t \<noteq> targetId)"
    unfolding set_byOrderValue by blast
  then have "findIndex (\<lambda>t. Some (id_task t) = sourceId) (byOrderValue ?same) = None
     \<or> findIndex (\<lambda>t. id_task t = targetId) (byOrderValue ?same) = None"
    unfolding findIndex_None by blast
  with False show ?thesis
    by (auto simp: reorderTasksWithinDay_def Let_def split: option.splits)
qed

lemma reorder_moved:
  assumes "sourceId \<noteq> []" and "targetId \<noteq> []" and "sourceId \<noteq> targetId"
    and "sourceId \<in> id_task ` set (filter (\<lambda>t. date t = selectedDate (data a)) (tasks (data a)))"
    and "targetId \<in> id_task ` set (filter (\<lambda>t. date t = selectedDate (data a)) (tasks (data a)))"
  shows "\<exists>reordered.
      mset reordered = mset (filter (\<lambda>t. date t = selectedDate (data a)) (tasks (data a)))
    \<and> reorderTasksWithinDay (Some sourceId) targetId a =
        a\<lparr>data := (data a)\<lparr>
              tasks := filter (\<lambda>t. date t \<noteq> selectedDate (data a)) (tasks (data a))
                       @ map (\<lambda>(index, t). t\<lparr>order_task := Some (int index)\<rparr>) (enumerate 0 reordered),
              sortBy := ''manual'',
              pomodoroTimers := pomodoroTimers_st a\<rparr>,
           sortBy_st := ''manual'', draggingId := None\<rparr>"
proof -
  let ?same = "filter (\<lambda>t. date t = selectedDate (data a)) (tasks (data a))"
  let ?ord = "byOrderValue ?same"
  from assms(4) obtain f where f: "findIndex (\<lambda>t. Some (id_task t) = Some sourceId) ?ord = Some f"
    using findIndex_None[of "\<lambda>t. Some (id_task t) = Some sourceId" ?ord]
    unfolding set_byOrderValue by (cases "findIndex (\<lambda>t. Some (id_task t) = Some sourceId) ?ord") auto
  from assms(5) obtain t where t: "findIndex (\<lambda>t. id_task t = targetId) ?ord = Some t"
    using findIndex_None[of "\<lambda>t. id_task t = targetId" ?ord]
    unfolding set_byOrderValue by (cases "findIndex (\<lambda>t. id_task t = targetId) ?ord") auto
  let ?re = "take t (take f ?ord @ drop (Suc f) ?ord) @ [?ord ! f] @ drop t (take f ?ord @ drop (Suc f) ?ord)"
  from findIndex_Some[OF f] have "f < length ?ord" by simp
  then have m: "mset ?re = mset ?same"
    by (simp only: mset_move mset_byOrderValue)
  have r: "reorderTasksWithinDay (Some sourceId) targetId a =
        a\<lparr>data := (data a)\<lparr>
              tasks := filter (\<lambda>t. date t \<noteq> selectedDate (data a)) (tasks (data a))
                       @ map (\<lambda>(index, t). t\<lparr>order_task := Some (int index)\<rparr>) (enumerate 0 ?re),
              sortBy := ''manual'',
              pomodoroTimers := pomodoroTimers_st a\<rparr>,
           sortBy_st := ''manual'', draggingId := None\<rparr>"
    using assms(1,2,3) f t
    by (simp add: reorderTasksWithinDay_def Let_def persist_def)
  from m r show ?thesis by blast
qed

subsection \<open>Sorting by priority\<close>















subsection \<open>The client-side normalizer on a normalized document\<close>

lemma last_dropWhile_nonempty:
  "dropWhile P xs \<noteq> [] \<Longrightarrow> last (dropWhile P xs) = last xs"
  by (induction xs) (auto split: if_splits)

lemma dropWhile_hd: "xs \<noteq> [] \<Longrightarrow> \<not> P (hd xs) \<Longrightarrow> dropWhile P xs = xs"
  by (cases xs) auto

lemma trim_id:
  assumes "s \<noteq> []" and "\<not> is_space (hd s)" and "\<not> is_space (last s)"
  shows "trim s = s"
proof -
  from assms(1,2) have 1: "dropWhile is_space s = s"
    by (rule dropWhile_hd)
  from assms(1) have r: "rev s \<noteq> []" and "hd (rev s) = last s"
    by (simp_all add: hd_rev)
  with assms(3) have "\<not> is_space (hd (rev s))" by simp
  with r have 2: "dropWhile is_space (rev s) = rev s"
    by (rule dropWhile_hd)
  show ?thesis by (simp add: trim_def 1 2)
qed

lemma trim_ends:
  assumes "trim s \<noteq> []"
  shows "\<not> is_space (hd (trim s))" and "\<not> is_space (last (trim s))"
proof -
  let ?u = "dropWhile is_space s"
  let ?w = "dropWhile is_space (rev ?u)"
  have t: "trim s = rev ?w" by (simp add: trim_def)
  with assms have w: "?w \<noteq> []" by simp
  have u: "?u \<noteq> []"
  proof
    assume "?u = []"
    then have "?w = dropWhile is_space (rev [])" by (rule arg_cong)
    with w show False by simp
  qed
  from w have "\<not> is_space (hd ?w)" by (rule hd_dropWhile)
  then show "\<not> is_space (last (trim s))"
    unfolding t using w by (simp add: last_rev)
  from u have hu: "\<not> is_space (hd ?u)" by (rule hd_dropWhile)
  have "last ?w = last (rev ?u)" using w by (rule last_dropWhile_nonempty)
  also have "\<dots> = hd ?u" using u by (simp add: last_rev)
  finally have "last ?w = hd ?u" .
  with hu show "\<not> is_space (hd (trim s))"
    unfolding t using w by (simp add: hd_rev)
qed

lemma trim_trim: "trim (trim s) = trim s"
proof (cases "trim s = []")
  case True
  have "trim [] = []" by (simp add: trim_def)
  with True show ?thesis by simp
next
  case False
  from trim_id[OF False trim_ends[OF False]] show ?thesis .
qed

lemma trim_General: "trim ''General'' = ''General''"
  by (simp add: trim_def is_space_def)

lemma is_hex_not_space: "is_hex c \<Longrightarrow> \<not> is_space c"
  by (auto simp: is_hex_def is_space_def)

lemma trim_hex:
  assumes "hex_color v"
  shows "trim v = v"
proof -
  from assms obtain cs where v: "v = CHR ''#'' # cs" and l: "length cs = 6" and h: "list_all is_hex cs"
    by (auto simp: hex_color_def split: list.splits)
  from l have ne: "cs \<noteq> []" by auto
  with h have "is_hex (last cs)" by (simp add: list_all_iff)
  then have "\<not> is_space (last v)" using ne by (simp add: v is_hex_not_space)
  moreover have "\<not> is_space (hd v)" by (simp add: v is_space_def)
  ultimately show ?thesis using trim_id[of v] by (simp add: v)
qed

lemma dedupe_acc_distinct:
  "distinct (acc @ xs) \<Longrightarrow>
     foldl (\<lambda>seen x. if x \<in> set seen then seen else seen @ [x]) acc xs = acc @ xs"
  by (induction xs arbitrary: acc) auto

lemma dedupe_distinct: "distinct xs \<Longrightarrow> dedupe xs = xs"
  using dedupe_acc_distinct[of "[]" xs] by (simp add: dedupe_def)

lemma normalizeCategories_shape:
  assumes "normalizeCategories E x = Some cs"
  shows "distinct cs" and "\<forall>c \<in> set cs. trim c = c"
proof -
  from assms obtain strs where
    st: "those (map (\<lambda>x. map_option trim (js_String E (js_or x (JStr []))))
           (array_or (get x ''categories'') [JStr ''General''])) = Some strs" and
    cs: "cs = (if ''General'' \<in> set (dedupe (filter (\<lambda>s. s \<noteq> []) strs))
               then dedupe (filter (\<lambda>s. s \<noteq> []) strs)
               else ''General'' # dedupe (filter (\<lambda>s. s \<noteq> []) strs))"
    by (auto simp: normalizeCategories_def Let_def bind_eq_Some_conv)
  show "distinct cs" by (simp add: cs distinct_dedupe)
  have tr: "trim y = y" if "y \<in> set strs" for y
  proof -
    from that obtain i where i: "i < length strs" "strs ! i = y"
      by (auto simp: in_set_conv_nth)
    let ?xs = "array_or (get x ''categories'') [JStr ''General'']"
    from those_map_Some[OF st] i(1)
    have "map_option trim (js_String E (js_or (?xs ! i) (JStr []))) = Some (strs ! i)"
      by (simp add: list_all2_conv_all_nth)
    then obtain u where "strs ! i = trim u" by (auto simp del: map_option_eq_Some) metis
    with i(2) have "y = trim u" by simp
    then show ?thesis by (simp add: trim_trim)
  qed
  show "\<forall>c \<in> set cs. trim c = c"
    using tr by (auto simp: cs set_dedupe trim_General)
qed

lemma those_map_JStr:
  assumes "\<forall>c \<in> set cs. trim c = c \<and> c \<noteq> []"
  shows "those (map (\<lambda>x. map_option trim (js_String E (js_or x (JStr [])))) (map JStr cs)) = Some cs"
  using assms by (induction cs) (auto simp: js_or_def)

subsection \<open>Own keys of colour objects\<close>

lemma fst_obj_insert: "fst ` set (obj_insert k v obj) = insert k (fst ` set obj)"
  by (simp add: set_obj_insert)

lemma distinct_obj_insert:
  "distinct (map fst obj) \<Longrightarrow> k \<notin> fst ` set obj \<Longrightarrow> distinct (map fst (obj_insert k v obj))"
proof (induction obj)
  case Nil
  then show ?case by simp
next
  case (Cons kv obj)
  then show ?case
    by (cases kv) (auto simp: fst_obj_insert)
qed

lemma map_fst_upd:
  "map fst (map (\<lambda>(k', v'). if k' = k then (k', v) else (k', v')) obj) = map fst obj"
  by (induction obj) auto

lemma distinct_obj_set:
  assumes "distinct (map fst obj)"
  shows "distinct (map fst (obj_set obj k v))"
proof (cases "k \<in> set (map fst obj)")
  case True
  then have "map fst (obj_set obj k v) = map fst obj"
    by (simp only: obj_set_def if_True map_fst_upd)
  with assms show ?thesis by simp
next
  case False
  then have n: "k \<notin> fst ` set obj" by simp
  show ?thesis
  proof (cases "is_array_index k")
    case True
    with False have "obj_set obj k v = obj_insert k v obj" by (simp add: obj_set_def)
    with distinct_obj_insert[OF assms n] show ?thesis by simp
  next
    case F: False
    with False have "obj_set obj k v = obj @ [(k, v)]" by (simp add: obj_set_def)
    with assms n show ?thesis by simp
  qed
qed

lemma keys_obj_set: "fst ` set (obj_set obj k v) = insert k (fst ` set obj)"
proof -
  have "dom (map_of (obj_set obj k v)) = insert k (dom (map_of obj))"
    by (simp add: map_of_obj_set)
  then show ?thesis by (simp add: dom_map_of_conv_image_fst)
qed

lemma own_keys_ok_assign: "own_keys_ok obj \<Longrightarrow> own_keys_ok (obj_assign obj k v)"
  by (auto simp: own_keys_ok_def obj_assign_def distinct_obj_set keys_obj_set)

lemma collectColors_keys:
  "collectColors E acc kvs = Some obj \<Longrightarrow> own_keys_ok acc \<Longrightarrow> own_keys_ok obj"
proof (induction kvs arbitrary: acc)
  case Nil
  then show ?case by simp
next
  case (Cons kv kvs)
  obtain key val where kv: "kv = (key, val)" by (cases kv)
  from Cons.prems(1) obtain color where
    r: "collectColors E (if trim key \<noteq> [] \<and> hex_color color then obj_assign acc (trim key) color else acc) kvs = Some obj"
    by (auto simp: kv Let_def bind_eq_Some_conv)
  have "own_keys_ok (if trim key \<noteq> [] \<and> hex_color color then obj_assign acc (trim key) color else acc)"
    using Cons.prems(2) by (simp add: own_keys_ok_assign)
  from Cons.IH[OF r this] show ?case .
qed

lemma fillColors_keys: "own_keys_ok acc \<Longrightarrow> own_keys_ok (fillColors acc cs)"
  unfolding fillColors_def
  by (induction cs arbitrary: acc) (simp_all add: own_keys_ok_assign)

lemma normalizeState_keys:
  assumes "normalizeState E x = Some d"
  shows "own_keys_ok (categoryColors d)"
proof -
  from assms obtain cs collected where
    c: "(if truthy (get x ''categoryColors'') \<and> typeof_object (get x ''categoryColors'')
         then collectColors E [] (entries (get x ''categoryColors'')) else Some []) = Some collected"
    and d: "categoryColors d = fillColors collected cs"
    by (auto simp: normalizeState_def Let_def bind_eq_Some_conv)
  have e: "own_keys_ok []" by (simp add: own_keys_ok_def)
  have "own_keys_ok collected"
  proof (cases "truthy (get x ''categoryColors'') \<and> typeof_object (get x ''categoryColors'')")
    case True
    with c have "collectColors E [] (entries (get x ''categoryColors'')) = Some collected" by simp
    from collectColors_keys[OF this e] show ?thesis .
  next
    case False
    with c e show ?thesis by auto
  qed
  then show ?thesis by (simp add: d fillColors_keys)
qed

lemma collectClientColors_rebuild:
  assumes "values_hex obj" and "own_keys_ok obj"
  shows "\<exists>acc'. collectClientColors E acc (map (\<lambda>(k, v). (k, JStr v)) obj) = Some acc'
           \<and> map_of acc' = map_of acc ++ map_of obj"
  using assms
proof (induction obj arbitrary: acc)
  case Nil
  then show ?case by simp
next
  case (Cons kv obj)
  obtain k v where kv: "kv = (k, v)" by (cases kv)
  from Cons.prems have hv: "hex_color v" and vh: "values_hex obj"
    by (auto simp: kv values_hex_def)
  from Cons.prems have ok: "own_keys_ok obj" and kp: "k \<noteq> ''__proto__''" and kn: "k \<notin> fst ` set obj"
    by (auto simp: kv own_keys_ok_def)
  from Cons.IH[OF vh ok, of "obj_set acc k v"] obtain acc' where
    c: "collectClientColors E (obj_set acc k v) (map (\<lambda>(k, v). (k, JStr v)) obj) = Some acc'"
    and m: "map_of acc' = map_of (obj_set acc k v) ++ map_of obj"
    by blast
  have none: "map_of obj k = None" using kn by (simp add: map_of_eq_None_iff)
  have "map_of acc' = map_of acc ++ map_of (kv # obj)"
    unfolding m kv by (rule ext) (simp add: map_of_obj_set map_add_def none split: option.splits)
  moreover have "collectClientColors E acc (map (\<lambda>(k, v). (k, JStr v)) (kv # obj)) = Some acc'"
    using c hv kp hex_color_nonempty[OF hv]
    by (simp add: kv js_or_def trim_hex obj_assign_def)
  ultimately show ?case by blast
qed

lemma obj_truthy_cong: "map_of a = map_of b \<Longrightarrow> obj_truthy a c = obj_truthy b c"
  by (simp add: obj_truthy_def)

lemma fillColors_id: "\<forall>c \<in> set cs. obj_truthy acc c \<Longrightarrow> fillColors acc cs = acc"
  unfolding fillColors_def by (induction cs) auto

lemma get_doc_json:
  "get (doc_json d) ''tasks'' = JArr (map task_json (tasks d))"
  "get (doc_json d) ''categories'' = JArr (map JStr (categories d))"
  "get (doc_json d) ''categoryColors'' = JObj (map (\<lambda>(k, v). (k, JStr v)) (categoryColors d))"
  "get (doc_json d) ''selectedDate'' = JStr (selectedDate d)"
  "get (doc_json d) ''sortBy'' = JUndef"
  "get (doc_json d) ''pomodoroTimers'' = JUndef"
  by (simp_all add: doc_json_def get_def)

lemma client_on_normalized:
  assumes "normalizeState E x = Some d"
  shows "\<exists>colors. map_of colors = map_of (categoryColors d)
           \<and> normalizeState_client E (doc_json d) =
               Some (client_json (map task_json (tasks d)) (categories d) colors
                       (if selectedDate d = [] then today E else selectedDate d)
                       ''priority'' [])"
proof -
  from normalizeState_tasks[OF assms] obtain cs where
    cs: "normalizeCategories E x = Some cs" "categories d = cs" by blast
  note g = normalizeCategories_General[OF cs(1)]
  note sh = normalizeCategories_shape[OF cs(1)]
  have ne: "cs \<noteq> []" using g(1) by auto
  have tc: "\<forall>c \<in> set cs. trim c = c \<and> c \<noteq> []" using sh(2) g(2) by auto
  have cats: "map_option (\<lambda>strs. dedupe (filter (\<lambda>s. s \<noteq> []) strs))
                (those (map (\<lambda>x. map_option trim (js_String E (js_or x (JStr [])))) (map JStr cs)))
              = Some cs"
  proof -
    have f: "filter (\<lambda>s. s \<noteq> []) cs = cs" using g(2) by (intro filter_True) auto
    show ?thesis
      unfolding those_map_JStr[OF tc] using sh(1) by (simp add: f dedupe_distinct)
  qed
  note col = normalizeState_colors[OF assms]
  from collectClientColors_rebuild[OF col(1) normalizeState_keys[OF assms], of E "[]"]
  obtain colors where
    cc: "collectClientColors E [] (map (\<lambda>(k, v). (k, JStr v)) (categoryColors d)) = Some colors"
    and m: "map_of colors = map_of (categoryColors d)"
    by auto
  have "\<forall>c \<in> set cs. obj_truthy colors c"
    using col(2) cs(2) obj_truthy_cong[OF m] by simp
  then have fill: "fillColors colors cs = colors" by (rule fillColors_id)
  have b: "buildCategoryColors E (get (doc_json d) ''categoryColors'') cs = Some colors"
    by (simp add: buildCategoryColors_def get_doc_json entries_def cc ne fill del: map_map)
  have t: "normalizePomodoroTimers E (get (doc_json d) ''pomodoroTimers'') = Some []"
    by (simp add: normalizePomodoroTimers_def get_doc_json)
  have o: "truthy (doc_json d) \<and> typeof_object (doc_json d)"
    by (simp add: doc_json_def)
  have "normalizeState_client E (doc_json d) =
      Some (client_json (map task_json (tasks d)) (categories d) colors
              (if selectedDate d = [] then today E else selectedDate d) ''priority'' [])"
    using o
    by (simp add: normalizeState_client_def get_doc_json cs(2) array_or_def cats
        b[unfolded get_doc_json] t[unfolded get_doc_json] ne
        string_or_def sort_or_def Let_def del: map_map)
  with m show ?thesis by blast
qed

subsection \<open>The normalizer\<close>

text \<open>
  Claim C1, on its failing input. The document has one task whose priority is the empty
  array. The normalizer returns the task with the empty string as priority; applied to that
  result (same date, clock and identifiers) it returns the task with priority
  \<open>Medium\<close>: the second result differs from the first.
\<close>

theorem normalizeState_twice_differs:
  "normalizeState env0 doc_blank_priority =
     Some \<lparr>tasks = [\<lparr>id_task = ''t1'', name = [], description = [], priority = [],
                     category = ''General'', taskType = ''Work'', meetingTime = [],
                     date = ''2026-11-03'', done_task = False, hidden = False,
                     createdAt = Fin 1793700000000, order_task = None\<rparr>],
          categories = [''General''], categoryColors = [(''General'', ''#4f8dfd'')],
          selectedDate = ''2026-11-03''\<rparr>
   \<and> Option.bind (normalizeState env0 doc_blank_priority) (\<lambda>d. normalizeState env0 (doc_json d)) =
     Some \<lparr>tasks = [\<lparr>id_task = ''t1'', name = [], description = [], priority = ''Medium'',
                     category = ''General'', taskType = ''Work'', meetingTime = [],
                     date = ''2026-11-03'', done_task = False, hidden = False,
                     createdAt = Fin 1793700000000, order_task = None\<rparr>],
          categories = [''General''], categoryColors = [(''General'', ''#4f8dfd'')],
          selectedDate = ''2026-11-03''\<rparr>"
  by code_simp

text \<open>
  Claim C2, on its failing input: a document whose categories are the one name
  \<open>constructor\<close>. The normalizer keeps the category and gives it no colour. The object
  \<open>categoryColors\<close> inherits a property of that name from \<open>Object.prototype\<close>, so the test
  \<open>!categoryColors[category]\<close>, which is meant to find the categories without a colour,
  does not fire: the document returned has the category \<open>constructor\<close> in its list and
  the one colour of \<open>General\<close>.
\<close>

theorem normalizeState_constructor:
  "normalizeState env0 doc_constructor =
     Some \<lparr>tasks = [], categories = [''General'', ''constructor''],
           categoryColors = [(''General'', ''#4f8dfd'')], selectedDate = ''2026-11-03''\<rparr>
   \<and> map_of [(''General'', ''#4f8dfd'')] ''constructor'' = None"
  by code_simp

text \<open>
  The defect is confined to the names that \<open>Object.prototype\<close> has. Whenever the
  normalizer returns a document, every task's category is one of its categories,
  \<open>General\<close> is one of them, and every category that is not such a name has an own
  colour of six hexadecimal digits. On a state with the three properties, \<open>addCategory\<close>
  keeps them when the colour picked is such a colour, whatever the engine's sort, and
  \<open>deleteCategory\<close> keeps them.
\<close>

lemma categories_kept:
  "(normalizeState E x = Some d \<longrightarrow>
      (\<forall>t \<in> set (tasks d). category t \<in> set (categories d))
    \<and> ''General'' \<in> set (categories d)
    \<and> (\<forall>c \<in> set (categories d). c \<notin> set Object_prototype_keys \<longrightarrow>
          (\<exists>v. map_of (categoryColors d) c = Some v \<and> hex_color v)))
   \<and> (sort_conforms srt \<and> categories_valid (data a) \<and> hex_color (newCategoryColor a) \<longrightarrow>
        categories_valid (data (addCategory srt lc a)))
   \<and> (categories_valid (data a) \<longrightarrow>
        (\<exists>a'. deleteCategory categoryName a = Some a' \<and> categories_valid (data a')))"
  using normalizeState_valid[of E x d] addCategory_valid[of srt a lc] deleteCategory_valid[of a categoryName]
  by blast

text \<open>
  Claim C4, as stated, fails for the normalizer: a task sent with \<open>done\<close> true and no
  \<open>hidden\<close> comes back done and not hidden.
\<close>

theorem done_hidden_counterexample:
  "normalizeState env0 doc_done_visible =
     Some \<lparr>tasks = [\<lparr>id_task = ''t1'', name = [], description = [], priority = ''Medium'',
                     category = ''General'', taskType = ''Work'', meetingTime = [],
                     date = ''2026-11-03'', done_task = True, hidden = False,
                     createdAt = Fin 1793700000000, order_task = None\<rparr>],
          categories = [''General''], categoryColors = [(''General'', ''#4f8dfd'')],
          selectedDate = ''2026-11-03''\<rparr>"
  by code_simp

text \<open>
  Claim C4, amended. \<open>toggleDone\<close> and \<open>hideTask\<close> preserve the invariant that a done
  task is hidden. After \<open>toggleDone\<close> every task with the given id has \<open>done\<close> and
  \<open>hidden\<close> both true or both false and is otherwise as before; after \<open>hideTask\<close> every
  task with the given id is hidden and not done and is otherwise as before; all other
  tasks are unchanged, each at its place. The normalizer does not establish the
  invariant: it converts \<open>done\<close> and \<open>hidden\<close> of every task it keeps to booleans,
  each on its own.
\<close>

theorem done_hidden_preserved:
  "((\<forall>t \<in> set (tasks (data a)). done_task t \<longrightarrow> hidden t) \<longrightarrow>
      (\<forall>t \<in> set (tasks (data (toggleDone taskId a))). done_task t \<longrightarrow> hidden t)
    \<and> (\<forall>t \<in> set (tasks (data (hideTask taskId a))). done_task t \<longrightarrow> hidden t))
   \<and> list_all2 (\<lambda>t t'. if id_task t = taskId
                        then t' = t\<lparr>done_task := done_task t', hidden := hidden t'\<rparr>
                             \<and> done_task t' = hidden t'
                        else t' = t)
        (tasks (data a)) (tasks (data (toggleDone taskId a)))
   \<and> list_all2 (\<lambda>t t'. if id_task t = taskId
                        then t' = t\<lparr>hidden := True, done_task := False\<rparr>
                        else t' = t)
        (tasks (data a)) (tasks (data (hideTask taskId a)))
   \<and> (normalizeState E x = Some d \<longrightarrow>
        list_all2 (\<lambda>raw t. done_task t = truthy (get raw ''done'') \<and> hidden t = truthy (get raw ''hidden''))
          (filter (\<lambda>t. truthy t \<and> typeof_object t) (array_or (get x ''tasks'') []))
          (tasks d))"
proof -
  have n: "list_all2 (\<lambda>raw t. done_task t = truthy (get raw ''done'') \<and> hidden t = truthy (get raw ''hidden''))
          (filter (\<lambda>t. truthy t \<and> typeof_object t) (array_or (get x ''tasks'') []))
          (tasks d)" if "normalizeState E x = Some d"
  proof -
    let ?kept = "filter (\<lambda>t. truthy t \<and> typeof_object t) (array_or (get x ''tasks'') [])"
    from normalizeState_tasks[OF that] obtain cs where
      l: "list_all2 (\<lambda>p t. safeTask E cs (fst p) (snd p) = Some t) (enumerate 0 ?kept) (tasks d)"
      by blast
    have len: "length ?kept = length (tasks d)"
      using list_all2_lengthD[OF l] by simp
    show ?thesis
    proof (rule list_all2_all_nthI[OF len])
      fix n assume n: "n < length ?kept"
      with l have "safeTask E cs (fst (enumerate 0 ?kept ! n)) (snd (enumerate 0 ?kept ! n)) = Some (tasks d ! n)"
        by (simp add: list_all2_conv_all_nth)
      with n have "safeTask E cs n (?kept ! n) = Some (tasks d ! n)"
        by (simp add: nth_enumerate_eq)
      then show "done_task (tasks d ! n) = truthy (get (?kept ! n) ''done'')
               \<and> hidden (tasks d ! n) = truthy (get (?kept ! n) ''hidden'')"
        by (rule safeTask_flags)
    qed
  qed
  have t: "(\<forall>t \<in> set (tasks (data a)). done_task t \<longrightarrow> hidden t) \<longrightarrow>
      (\<forall>t \<in> set (tasks (data (toggleDone taskId a))). done_task t \<longrightarrow> hidden t)
    \<and> (\<forall>t \<in> set (tasks (data (hideTask taskId a))). done_task t \<longrightarrow> hidden t)"
    unfolding toggleDone_tasks hideTask_tasks set_map ball_simps by simp
  have t2: "list_all2 (\<lambda>t t'. if id_task t = taskId
                        then t' = t\<lparr>done_task := done_task t', hidden := hidden t'\<rparr>
                             \<and> done_task t' = hidden t'
                        else t' = t)
        (tasks (data a)) (tasks (data (toggleDone taskId a)))"
    unfolding toggleDone_tasks list_all2_map2 by (rule list_all2_refl) simp
  have t3: "list_all2 (\<lambda>t t'. if id_task t = taskId
                        then t' = t\<lparr>hidden := True, done_task := False\<rparr>
                        else t' = t)
        (tasks (data a)) (tasks (data (hideTask taskId a)))"
    unfolding hideTask_tasks list_all2_map2 by (rule list_all2_refl) simp
  show ?thesis
    apply (intro conjI)
       apply (rule t)
      apply (rule t2)
     apply (rule t3)
    apply (rule impI)
    apply (erule n)
    done
qed

theorem done_hidden_preserved_witness:
  "done_task (tasks (data (toggleDone ''t1'' (app_with [example_task]))) ! 0)
   \<and> hidden (tasks (data (toggleDone ''t1'' (app_with [example_task]))) ! 0)
   \<and> hidden (tasks (data (hideTask ''t1'' (app_with [example_task]))) ! 0)
   \<and> \<not> done_task (tasks (data (hideTask ''t1'' (app_with [example_task]))) ! 0)
   \<and> list_all2 (\<lambda>raw t. done_task t = truthy (get raw ''done'') \<and> hidden t = truthy (get raw ''hidden''))
        [JObj [(''id'', JStr ''t1''), (''done'', JBool True)]]
        [\<lparr>id_task = ''t1'', name = [], description = [], priority = ''Medium'',
                     category = ''General'', taskType = ''Work'', meetingTime = [],
                     date = ''2026-11-03'', done_task = True, hidden = False,
                     createdAt = Fin 1793700000000, order_task = None\<rparr>]"
proof -
  have n: "normalizeState env0 doc_done_visible =
     Some \<lparr>tasks = [\<lparr>id_task = ''t1'', name = [], description = [], priority = ''Medium'',
                     category = ''General'', taskType = ''Work'', meetingTime = [],
                     date = ''2026-11-03'', done_task = True, hidden = False,
                     createdAt = Fin 1793700000000, order_task = None\<rparr>],
          categories = [''General''], categoryColors = [(''General'', ''#4f8dfd'')],
          selectedDate = ''2026-11-03''\<rparr>"
    by code_simp
  have k: "filter (\<lambda>t. truthy t \<and> typeof_object t) (array_or (get doc_done_visible ''tasks'') [])
      = [JObj [(''id'', JStr ''t1''), (''done'', JBool True)]]"
    by code_simp
  have i: "\<forall>t \<in> set (tasks (data (app_with [example_task]))). done_task t \<longrightarrow> hidden t"
    by (simp add: app_with_def example_task_def)
  have tg: "tasks (data (toggleDone ''t1'' (app_with [example_task]))) = [example_task\<lparr>done_task := True, hidden := True\<rparr>]"
    by (simp add: toggleDone_tasks app_with_def example_task_def)
  have hd: "tasks (data (hideTask ''t1'' (app_with [example_task]))) = [example_task\<lparr>hidden := True, done_task := False\<rparr>]"
    by (simp add: hideTask_tasks app_with_def example_task_def)
  have c: "done_task (tasks (data (toggleDone ''t1'' (app_with [example_task]))) ! 0)
   \<and> hidden (tasks (data (toggleDone ''t1'' (app_with [example_task]))) ! 0)
   \<and> hidden (tasks (data (hideTask ''t1'' (app_with [example_task]))) ! 0)
   \<and> \<not> done_task (tasks (data (hideTask ''t1'' (app_with [example_task]))) ! 0)"
    by (simp add: tg hd)
  from done_hidden_preserved[of "app_with [example_task]" "''t1''" env0 doc_done_visible, unfolded k] n i
  have "list_all2 (\<lambda>raw t. done_task t = truthy (get raw ''done'') \<and> hidden t = truthy (get raw ''hidden''))
        [JObj [(''id'', JStr ''t1''), (''done'', JBool True)]]
        (tasks \<lparr>tasks = [\<lparr>id_task = ''t1'', name = [], description = [], priority = ''Medium'',
                     category = ''General'', taskType = ''Work'', meetingTime = [],
                     date = ''2026-11-03'', done_task = True, hidden = False,
                     createdAt = Fin 1793700000000, order_task = None\<rparr>],
          categories = [''General''], categoryColors = [(''General'', ''#4f8dfd'')],
          selectedDate = ''2026-11-03''\<rparr>)"
    by blast
  with c show ?thesis
    by simp
qed

subsection \<open>Rounding to a number\<close>

lemma ilog2_bounds:
  "0 < a \<Longrightarrow> 2 powi (ilog2 a) \<le> a \<and> a < 2 powi (ilog2 a + 1)"
proof (induction a rule: ilog2.induct)
  case (1 a)
  show ?case
  proof (cases "a < 1")
    case True
    with 1 have ih: "2 powi (ilog2 (2 * a)) \<le> 2 * a" "2 * a < 2 powi (ilog2 (2 * a) + 1)"
      by auto
    have e: "ilog2 a = ilog2 (2 * a) - 1" using True 1(3) by (subst ilog2.simps) simp
    have p: "(2::rat) powi (ilog2 (2 * a) - 1) = 2 powi (ilog2 (2 * a)) / 2"
      by (simp add: power_int_diff)
    have q: "(2::rat) powi (ilog2 (2 * a) + 1) = 2 powi (ilog2 (2 * a)) * 2"
      by (simp add: power_int_add)
    show ?thesis unfolding e using ih p q by simp
  next
    case False
    show ?thesis
    proof (cases "2 \<le> a")
      case True
      with 1 False have ih: "2 powi (ilog2 (a / 2)) \<le> a / 2" "a / 2 < 2 powi (ilog2 (a / 2) + 1)"
        by auto
      have e: "ilog2 a = ilog2 (a / 2) + 1" using True False 1(3) by (subst ilog2.simps) simp
      have q: "(2::rat) powi (ilog2 (a / 2) + 1) = 2 powi (ilog2 (a / 2)) * 2"
        by (simp add: power_int_add)
      have r: "(2::rat) powi (ilog2 (a / 2) + 1 + 1) = 2 powi (ilog2 (a / 2) + 1) * 2"
        by (simp add: power_int_add)
      show ?thesis unfolding e using ih q r by simp
    next
      case F2: False
      have e: "ilog2 a = 0" using False F2 1(3) by (subst ilog2.simps) simp
      show ?thesis unfolding e using False F2 by simp
    qed
  qed
qed

lemma ilog2_nonneg:
  assumes "1 \<le> a"
  shows "0 \<le> ilog2 a"
proof (rule ccontr)
  assume "\<not> 0 \<le> ilog2 a"
  then have "ilog2 a + 1 \<le> 0" by simp
  then have "(2::rat) powi (ilog2 a + 1) \<le> 2 powi 0"
    by (intro power_int_increasing) auto
  with ilog2_bounds[of a] assms show False by simp
qed

lemma ilog2_le:
  assumes "0 < a" and "a \<le> 2 powi m"
  shows "ilog2 a \<le> m"
proof (rule ccontr)
  assume "\<not> ilog2 a \<le> m"
  then have "m < ilog2 a" by simp
  then have "(2::rat) powi m < 2 powi (ilog2 a)"
    by (intro power_int_strict_increasing) auto
  with ilog2_bounds[OF assms(1)] assms(2) show False by simp
qed

lemma ilog2_ge:
  assumes "0 < a" and "2 powi m \<le> a"
  shows "m \<le> ilog2 a"
proof (rule ccontr)
  assume "\<not> m \<le> ilog2 a"
  then have "ilog2 a + 1 \<le> m" by simp
  then have "(2::rat) powi (ilog2 a + 1) \<le> 2 powi m"
    by (intro power_int_increasing) auto
  with ilog2_bounds[OF assms(1)] assms(2) show False by simp
qed

lemma round_even_int: "round_even (of_int m) = m"
  by (simp add: round_even_def)

lemma round_even_err: "\<bar>of_int (round_even z) - z\<bar> \<le> 1 / 2"
proof -
  have "of_int \<lfloor>z\<rfloor> \<le> z" "z < of_int \<lfloor>z\<rfloor> + 1" by linarith+
  then show ?thesis unfolding round_even_def Let_def by (auto simp: abs_le_iff)
qed

lemma round_even_ge: "of_int m \<le> z \<Longrightarrow> m \<le> round_even z"
proof -
  assume "of_int m \<le> z"
  then have "m \<le> \<lfloor>z\<rfloor>" by (simp add: le_floor_iff)
  then show ?thesis unfolding round_even_def Let_def by auto
qed

text \<open>
  What \<open>to_double\<close> does to a number of magnitude at least \<open>2 powi (- 1022)\<close>: the
  spacing is the one of its exponent.
\<close>

lemma to_double_normal:
  assumes "2 powi (- 1022) \<le> \<bar>x\<bar>"
  shows "to_double x =
     (let y = of_int (round_even (x / 2 powi (ilog2 \<bar>x\<bar> - 52))) * 2 powi (ilog2 \<bar>x\<bar> - 52)
      in if 2 ^ 1024 \<le> \<bar>y\<bar> then (if 0 < x then PInf else NInf) else Fin y)"
proof -
  have p: "(0::rat) < 2 powi (- 1022)" by simp
  with assms have x: "0 < \<bar>x\<bar>" by linarith
  then have x0: "x \<noteq> 0" by simp
  from ilog2_ge[OF x assms] have "max (ilog2 \<bar>x\<bar>) (- 1022) = ilog2 \<bar>x\<bar>" by simp
  then show ?thesis using x0 by (simp add: to_double_def Let_def)
qed

lemma to_double_exact:
  assumes x: "x \<noteq> 0" and n: "1 \<le> \<bar>x\<bar>" and b: "\<bar>x\<bar> < 2 ^ 1024"
    and z: "x / 2 powi (ilog2 \<bar>x\<bar> - 52) = of_int m"
  shows "to_double x = Fin x"
proof -
  have "(2::rat) powi (- 1022) \<le> 2 powi 0" by (intro power_int_increasing) auto
  with n have "2 powi (- 1022) \<le> \<bar>x\<bar>" by simp
  note d = to_double_normal[OF this]
  have u: "(2::rat) powi (ilog2 \<bar>x\<bar> - 52) \<noteq> 0" by simp
  have "of_int (round_even (x / 2 powi (ilog2 \<bar>x\<bar> - 52))) * 2 powi (ilog2 \<bar>x\<bar> - 52)
      = x / 2 powi (ilog2 \<bar>x\<bar> - 52) * 2 powi (ilog2 \<bar>x\<bar> - 52)"
    unfolding z round_even_int ..
  also have "\<dots> = x" using u by simp
  finally have y: "of_int (round_even (x / 2 powi (ilog2 \<bar>x\<bar> - 52))) * 2 powi (ilog2 \<bar>x\<bar> - 52) = x" .
  show ?thesis unfolding d y Let_def using b by simp
qed

text \<open>The integers of magnitude up to \<open>2 ^ 53\<close> are numbers.\<close>

lemma to_double_int:
  assumes "\<bar>n\<bar> \<le> 2 ^ 53"
  shows "to_double (of_int n) = Fin (of_int n)"
proof (cases "n = 0")
  case True
  then show ?thesis by (simp add: to_double_def)
next
  case False
  define a :: rat where "a = \<bar>of_int n\<bar>"
  define k where "k = ilog2 a"
  have an: "a = of_int \<bar>n\<bar>" unfolding a_def by simp
  have "1 \<le> \<bar>n\<bar>" using False by simp
  then have "(of_int 1 :: rat) \<le> of_int \<bar>n\<bar>" by (simp only: of_int_le_iff)
  then have a1: "1 \<le> a" unfolding an by simp
  have "(of_int \<bar>n\<bar> :: rat) \<le> of_int (2 ^ 53)" using assms by (simp only: of_int_le_iff)
  then have a53: "a \<le> 2 ^ 53" unfolding an by simp
  have a0: "0 < a" using a1 by simp
  have k0: "0 \<le> k" unfolding k_def using a1 by (rule ilog2_nonneg)
  have "a \<le> 2 powi 53" using a53 by simp
  from ilog2_le[OF a0 this] have k53: "k \<le> 53" unfolding k_def .
  have "\<exists>m. of_int n / 2 powi (k - 52) = (of_int m :: rat)"
  proof (cases "k \<le> 52")
    case True
    define j where "j = nat (52 - k)"
    have "k - 52 = - int j" unfolding j_def using True by simp
    then have "(2::rat) powi (k - 52) = 1 / 2 ^ j"
      by (simp add: power_int_minus_divide)
    then have "of_int n / 2 powi (k - 52) = (of_int (n * 2 ^ j) :: rat)" by simp
    then show ?thesis by blast
  next
    case False
    with k53 have k: "k = 53" by simp
    from ilog2_bounds[OF a0] have "2 powi k \<le> a" unfolding k_def by simp
    with a53 have "a = 2 ^ 53" unfolding k by simp
    then have "(of_int \<bar>n\<bar> :: rat) = of_int (2 ^ 53)" unfolding an by simp
    then have "\<bar>n\<bar> = 2 ^ 53" by (simp only: of_int_eq_iff)
    then have "n = 2 ^ 53 \<or> n = - (2 ^ 53)" by linarith
    then have "of_int n / 2 powi (k - 52) = (of_int (n div 2) :: rat)"
      unfolding k by auto
    then show ?thesis by blast
  qed
  then obtain m where m: "of_int n / 2 powi (ilog2 \<bar>of_int n\<bar> - 52) = (of_int m :: rat)"
    unfolding k_def a_def by blast
  have "a < 2 ^ 1024" using a53 by simp
  then show ?thesis
    using to_double_exact[of "of_int n" m] False a1 m unfolding a_def by simp
qed

text \<open>A rational of at least one is rounded to a number above zero.\<close>

lemma to_double_positive:
  assumes "1 \<le> x"
  shows "gt0 (to_double x)"
proof -
  have x: "\<bar>x\<bar> = x" "0 < x" using assms by simp_all
  have "(2::rat) powi (- 1022) \<le> 2 powi 0" by (intro power_int_increasing) auto
  with assms have "2 powi (- 1022) \<le> \<bar>x\<bar>" by simp
  note d = to_double_normal[OF this, unfolded x]
  define u :: rat where "u = 2 powi (ilog2 x - 52)"
  have u: "0 < u" unfolding u_def by simp
  have "2 powi (ilog2 x) \<le> x" using ilog2_bounds[OF x(2)] by simp
  moreover have "2 powi (ilog2 x) = u * 2 ^ 52" unfolding u_def by (simp add: power_int_diff)
  ultimately have "u * 2 ^ 52 \<le> x" by simp
  then have "2 ^ 52 \<le> x / u" using u by (simp add: pos_le_divide_eq mult.commute)
  then have "of_int 1 \<le> x / u" by simp
  then have "1 \<le> round_even (x / u)" by (rule round_even_ge)
  then have "0 < (of_int (round_even (x / u)) :: rat)" by simp
  then have "0 < of_int (round_even (x / u)) * u" using u by simp
  then show ?thesis unfolding d u_def[symmetric] Let_def using x(2) by simp
qed

lemma ilog2_eq:
  assumes "2 powi k \<le> a" and "a < 2 powi (k + 1)"
  shows "ilog2 a = k"
proof -
  have "(0::rat) < 2 powi k" by simp
  with assms(1) have a: "0 < a" by linarith
  from ilog2_ge[OF a assms(1)] have 1: "k \<le> ilog2 a" .
  have "ilog2 a < k + 1"
  proof (rule ccontr)
    assume "\<not> ilog2 a < k + 1"
    then have "(2::rat) powi (k + 1) \<le> 2 powi (ilog2 a)"
      by (intro power_int_increasing) auto
    with ilog2_bounds[OF a] assms(2) show False by simp
  qed
  with 1 show ?thesis by simp
qed

lemma round_even_le: "z \<le> of_int m \<Longrightarrow> round_even z \<le> m"
proof -
  assume z: "z \<le> of_int m"
  have f: "of_int \<lfloor>z\<rfloor> \<le> z" by (rule of_int_floor_le)
  have "\<lfloor>z\<rfloor> \<le> m" using z by (simp add: floor_le_iff)
  moreover have "z = of_int m" if "\<lfloor>z\<rfloor> = m" using that z f by simp
  ultimately show ?thesis unfolding round_even_def Let_def
    by (cases "\<lfloor>z\<rfloor> = m") auto
qed

lemma round_even_eq:
  assumes "of_int m - 1 / 2 < z" and "z < of_int m + 1 / 2"
  shows "round_even z = m"
proof (cases "of_int m \<le> z")
  case True
  with assms(2) have "\<lfloor>z\<rfloor> = m" by (intro floor_unique) auto
  with assms(2) show ?thesis by (simp add: round_even_def Let_def)
next
  case False
  with assms(1) have f: "\<lfloor>z\<rfloor> = m - 1" by (intro floor_unique) auto
  have "1 / 2 < z - of_int (m - 1)" using assms(1) by simp
  then show ?thesis unfolding round_even_def Let_def f by simp
qed

text \<open>Rounding a rational whose exponent is known.\<close>

lemma to_double_at:
  fixes x :: rat
  assumes lo: "2 powi k \<le> \<bar>x\<bar>" and hi: "\<bar>x\<bar> < 2 powi (k + 1)"
    and k: "- 1022 \<le> k" "k \<le> 1022"
    and m1: "of_int m - 1 / 2 < x / 2 powi (k - 52)" and m2: "x / 2 powi (k - 52) < of_int m + 1 / 2"
  shows "to_double x = Fin (of_int m * 2 powi (k - 52))"
proof -
  define u :: rat where "u = 2 powi (k - 52)"
  have u: "0 < u" unfolding u_def by simp
  have m: "round_even (x / 2 powi (k - 52)) = m" using m1 m2 by (rule round_even_eq)
  have "(0::rat) < 2 powi k" by simp
  with lo have "0 < \<bar>x\<bar>" by linarith
  then have x: "x \<noteq> 0" by simp
  have il: "ilog2 \<bar>x\<bar> = k" using lo hi by (rule ilog2_eq)
  have mx: "max k (- 1022) = k" using k by simp
  have u53: "2 powi (k + 1) = u * 2 ^ 53" unfolding u_def by (simp add: power_int_diff power_int_add)
  have "\<bar>x / u\<bar> = \<bar>x\<bar> / u" using u by simp
  also have "\<dots> < 2 ^ 53" using hi u unfolding u53 by (simp add: pos_divide_less_eq mult.commute)
  finally have z: "\<bar>x / u\<bar> < 2 ^ 53" .
  have "x / u \<le> 2 ^ 53" "- (2 ^ 53) \<le> x / u" using z by linarith+
  then have "x / u \<le> of_int (2 ^ 53)" "of_int (- (2 ^ 53)) \<le> x / u" by simp_all
  then have "m \<le> 2 ^ 53" "- (2 ^ 53) \<le> m"
    using round_even_le[of "x / u" "2 ^ 53"] round_even_ge[of "- (2 ^ 53)" "x / u"]
    unfolding m[unfolded u_def[symmetric]] by simp_all
  then have "\<bar>m\<bar> \<le> 2 ^ 53" by simp
  then have "(of_int \<bar>m\<bar> :: rat) \<le> of_int (2 ^ 53)" by (simp only: of_int_le_iff)
  then have am: "\<bar>of_int m :: rat\<bar> \<le> 2 ^ 53" by simp
  have "\<bar>of_int m * u\<bar> = \<bar>of_int m\<bar> * u" using u by (simp add: abs_mult)
  also have "\<dots> \<le> 2 ^ 53 * u" using am u by (intro mult_right_mono) auto
  also have "\<dots> = 2 powi (k + 1)" unfolding u53 by simp
  also have "\<dots> \<le> 2 powi 1023" using k by (intro power_int_increasing) auto
  also have "\<dots> < 2 ^ 1024" by simp
  finally have "\<not> 2 ^ 1024 \<le> \<bar>of_int m * u\<bar>" by simp
  then show ?thesis
    using x unfolding to_double_def Let_def il mx m u_def by simp
qed

text \<open>Rounding keeps a rational of at least one at least one, and one below zero not above zero.\<close>

lemma to_double_ge1:
  assumes "1 \<le> x"
  shows "to_double x = PInf \<or> (\<exists>y. to_double x = Fin y \<and> 1 \<le> y)"
proof -
  have x: "\<bar>x\<bar> = x" "0 < x" using assms by simp_all
  have "(2::rat) powi (- 1022) \<le> 2 powi 0" by (intro power_int_increasing) auto
  with assms have "2 powi (- 1022) \<le> \<bar>x\<bar>" by simp
  note d = to_double_normal[OF this, unfolded x]
  define u :: rat where "u = 2 powi (ilog2 x - 52)"
  have u: "0 < u" unfolding u_def by simp
  have k: "0 \<le> ilog2 x" using assms by (rule ilog2_nonneg)
  have p: "2 powi (ilog2 x) = u * 2 ^ 52" unfolding u_def by (simp add: power_int_diff)
  have "2 powi (ilog2 x) \<le> x" using ilog2_bounds[OF x(2)] by simp
  then have "u * 2 ^ 52 \<le> x" unfolding p .
  then have "2 ^ 52 \<le> x / u" using u by (simp add: pos_le_divide_eq mult.commute)
  then have "of_int (2 ^ 52) \<le> x / u" by simp
  then have "2 ^ 52 \<le> round_even (x / u)" by (rule round_even_ge)
  then have "(of_int (2 ^ 52) :: rat) \<le> of_int (round_even (x / u))" by (simp only: of_int_le_iff)
  then have "of_int (2 ^ 52) * u \<le> of_int (round_even (x / u)) * u"
    using u by (intro mult_right_mono) auto
  then have "u * 2 ^ 52 \<le> of_int (round_even (x / u)) * u" by (simp add: mult.commute)
  moreover have "(1::rat) \<le> 2 powi (ilog2 x)" using k by simp
  ultimately have "1 \<le> of_int (round_even (x / u)) * u" unfolding p by linarith
  then show ?thesis unfolding d u_def[symmetric] Let_def using x(2) by simp
qed

lemma to_double_nonpos:
  assumes "x \<le> 0"
  shows "\<not> gt0 (to_double x)"
proof (cases "x = 0")
  case True
  then show ?thesis by (simp add: to_double_def)
next
  case False
  define u :: rat where "u = 2 powi (max (ilog2 \<bar>x\<bar>) (- 1022) - 52)"
  have u: "0 < u" unfolding u_def by simp
  have "x / u \<le> of_int 0" using assms u by (simp add: divide_nonpos_pos)
  then have "round_even (x / u) \<le> 0" by (rule round_even_le)
  then have "(of_int (round_even (x / u)) :: rat) \<le> 0" by simp
  then have "of_int (round_even (x / u)) * u \<le> 0" using u by (simp add: mult_le_0_iff)
  then show ?thesis
    using False assms unfolding to_double_def Let_def u_def[symmetric] by simp
qed

subsection \<open>Timers\<close>

lemma tick_timer_running:
  assumes "isRunning t" and "remainingSeconds t = Fin (of_int n)" and "0 \<le> n" and "n \<le> 2 ^ 53"
  shows "tick_timer t =
     t\<lparr>remainingSeconds := Fin (of_int (max (n - 1) 0)), isRunning := (0 < max (n - 1) 0)\<rparr>"
proof -
  have "\<bar>n - 1\<bar> \<le> 2 ^ 53" using assms(3,4) by simp
  from to_double_int[OF this]
  have "to_double (of_int n - 1) = Fin (of_int (n - 1))" by simp
  then have s: "dbl_sub (remainingSeconds t) (Fin 1) = Fin (of_int (n - 1))"
    unfolding assms(2) by (simp add: dbl_sub_def)
  have m: "num_max (Fin (of_int (n - 1))) (Fin 0) = Fin (of_int (max (n - 1) 0))"
    by (simp add: num_max_def max_def)
  have "tick_timer t =
     (if strict_ne (Fin (of_int (max (n - 1) 0))) (remainingSeconds t)
         \<or> (0 < max (n - 1) 0) \<noteq> isRunning t
      then t\<lparr>remainingSeconds := Fin (of_int (max (n - 1) 0)), isRunning := (0 < max (n - 1) 0)\<rparr>
      else t)"
    using assms(1) unfolding tick_timer_def Let_def s m by simp
  also have "\<dots> = t\<lparr>remainingSeconds := Fin (of_int (max (n - 1) 0)), isRunning := (0 < max (n - 1) 0)\<rparr>"
    by (cases t) (auto simp: strict_ne_def)
  finally show ?thesis .
qed

lemma tick_timer_paused: "\<not> isRunning t \<Longrightarrow> tick_timer t = t"
  by (simp add: tick_timer_def)

lemma tick_funpow: "(tick ^^ k) m taskId = map_option (tick_timer ^^ k) (m taskId)"
proof (induction k)
  case 0
  show ?case by (simp add: option.map_ident)
next
  case (Suc k)
  then show ?case by (simp add: tick_def option.map_comp comp_def)
qed

lemma tick_timer_countdown:
  assumes "0 < n" and "n \<le> 2 ^ 53"
  shows "(tick_timer ^^ k) \<lparr>remainingSeconds = Fin (of_int n), durationSeconds = d, isRunning = True\<rparr>
     = \<lparr>remainingSeconds = Fin (of_int (max (n - int k) 0)), durationSeconds = d,
        isRunning = (int k < n)\<rparr>"
proof (induction k)
  case 0
  then show ?case using assms by simp
next
  case (Suc k)
  show ?case
  proof (cases "int k < n")
    case True
    let ?t = "\<lparr>remainingSeconds = Fin (of_int (n - int k)), durationSeconds = d,
        isRunning = True\<rparr>"
    have "tick_timer ?t = ?t\<lparr>remainingSeconds := Fin (of_int (max (n - int k - 1) 0)),
        isRunning := (0 < max (n - int k - 1) 0)\<rparr>"
      by (rule tick_timer_running) (use True assms in auto)
    moreover have "max (n - int k) 0 = n - int k" using True by simp
    ultimately show ?thesis using Suc True by (simp add: algebra_simps)
  next
    case False
    with Suc show ?thesis by (simp add: tick_timer_paused)
  qed
qed

lemma startPomodoro_prompt:
  assumes "\<forall>e. pomodoroTimers_st a t = Some e \<longrightarrow> \<not> gt0 (remainingSeconds e)"
    and "seconds = dbl_mul (if is_finite (parseInt10 input) \<and> gt0 (parseInt10 input)
                            then parseInt10 input else Fin 30) (Fin 60)"
  shows "startPomodoro (Some input) t a =
     a\<lparr>data := (data a)\<lparr>pomodoroTimers :=
           (pomodoroTimers_st a)(t \<mapsto>
              \<lparr>remainingSeconds = seconds, durationSeconds = seconds, isRunning = True\<rparr>)\<rparr>,
       pomodoroTimers_st :=
           (pomodoroTimers_st a)(t \<mapsto>
              \<lparr>remainingSeconds = seconds, durationSeconds = seconds, isRunning = True\<rparr>)\<rparr>"
  using assms
  by (auto simp: startPomodoro_def promptTimers_def persist_def Let_def split: option.splits)

lemma parseInt10_digits:
  assumes "ds \<noteq> []" and "list_all is_digit ds" and "rest = [] \<or> \<not> is_digit (hd rest)"
  shows "parseInt10 (ds @ rest) = to_double (of_int (dec_value ds))"
proof -
  have h: "is_digit (hd ds)" using assms(1,2) by (cases ds) auto
  have sp: "\<not> is_space (hd ds)" using h by (auto simp: is_digit_def is_space_def)
  have sg: "hd ds \<noteq> CHR ''-''" "hd ds \<noteq> CHR ''+''" using h by (auto simp: is_digit_def)
  have d: "dropWhile is_space (ds @ rest) = ds @ rest"
    using assms(1) sp by (cases ds) auto
  have t: "takeWhile is_digit (ds @ rest) = ds"
  proof -
    have "takeWhile is_digit (ds @ rest) = ds @ takeWhile is_digit rest"
      using assms(2) by (simp add: takeWhile_append2 list_all_iff)
    moreover have "takeWhile is_digit rest = []"
      using assms(3) by (cases rest) auto
    ultimately show ?thesis by simp
  qed
  have hd: "hd (ds @ rest) = hd ds" using assms(1) by simp
  show ?thesis
    unfolding parseInt10_def d Let_def hd using assms(1) sg t by simp
qed

lemma dec_value_5: "dec_value ''5'' = 5"
  by (simp add: dec_value_def digit_val_def)

lemma parseInt10_5: "parseInt10 ''5'' = Fin 5"
  using parseInt10_digits[of "''5''" "[]"] to_double_int[of 5]
  by (simp add: is_digit_def dec_value_5)

lemma seconds_5: "dbl_mul (Fin 5) (Fin 60) = Fin 300"
  using to_double_int[of 300] by (simp add: dbl_mul_def)

lemma parseInt10_long: "parseInt10 ''300239975158034'' = Fin 300239975158034"
  using parseInt10_digits[of "''300239975158034''" "[]"] to_double_int[of 300239975158034]
  by (simp add: is_digit_def dec_value_def digit_val_def)

lemma seconds_long: "dbl_mul (Fin 300239975158034) (Fin 60) = Fin 18014398509482040"
  unfolding dbl_mul_def
  by (simp, subst to_double_at[where k = 54 and m = 4503599627370510]) simp_all

lemma tick_long: "dbl_sub (Fin 18014398509482040) (Fin 1) = Fin 18014398509482040"
  unfolding dbl_sub_def
  by (simp, subst to_double_at[where k = 54 and m = 4503599627370510]) simp_all

lemma timers_long_t:
  "timers_long ''t'' =
     Some \<lparr>remainingSeconds = Fin 18014398509482040, durationSeconds = Fin 18014398509482040,
           isRunning = True\<rparr>"
  by (simp add: timers_long_def startPomodoro_def initialApp_def promptTimers_def persist_def
      parseInt10_long seconds_long Let_def)

text \<open>
  Claim C8, as stated, fails for a timer of more than \<open>2 ^ 53\<close> seconds. The prompt of
  \<open>startPomodoro\<close> answered with 300239975158034 minutes gives a running timer of
  18014398509482040 seconds; one less is not a number, the nearest number is
  18014398509482040 again, and the tick leaves the timer as it is.
\<close>

theorem tick_counterexample:
  "timers_long ''t'' =
     Some \<lparr>remainingSeconds = Fin 18014398509482040, durationSeconds = Fin 18014398509482040,
           isRunning = True\<rparr>
   \<and> tick timers_long ''t'' =
     Some \<lparr>remainingSeconds = Fin 18014398509482040, durationSeconds = Fin 18014398509482040,
           isRunning = True\<rparr>"
  by (simp add: timers_long_t tick_def tick_timer_def tick_long num_max_def strict_ne_def Let_def)

text \<open>
  Claim C8, amended. One tick takes one second from every running timer whose remaining
  time is a whole number of seconds from \<open>0\<close> to \<open>2 ^ 53\<close>, never below zero, and stops
  the timer that reaches zero; a paused timer and a key without a timer are left as they
  are. Hence, when \<open>t\<close> has no timer with time left, starting it with the answer \<open>5\<close> to
  the prompt and ticking 301 times leaves \<open>t\<close> with no time, not running; after \<open>k\<close>
  ticks the remaining time is \<open>max (300 - k) 0\<close>, so it is never negative.
\<close>

theorem tick_countdown:
  fixes prev :: timers
  assumes "\<forall>e. pomodoroTimers_st a t = Some e \<longrightarrow> \<not> gt0 (remainingSeconds e)"
  shows "(prev x = Some tx \<and> isRunning tx \<and> remainingSeconds tx = Fin (of_int n)
            \<and> 0 \<le> n \<and> n \<le> 2 ^ 53 \<longrightarrow>
            tick prev x = Some (tx\<lparr>remainingSeconds := Fin (of_int (max (n - 1) 0)),
                                   isRunning := (0 < max (n - 1) 0)\<rparr>))
       \<and> (prev y = Some ty \<and> \<not> isRunning ty \<longrightarrow> tick prev y = Some ty)
       \<and> (prev z = None \<longrightarrow> tick prev z = None)
       \<and> (tick ^^ 301) (pomodoroTimers_st (startPomodoro (Some ''5'') t a)) t
            = Some \<lparr>remainingSeconds = Fin 0, durationSeconds = Fin 300, isRunning = False\<rparr>
       \<and> (\<forall>k \<le> 301. \<exists>tm. (tick ^^ k) (pomodoroTimers_st (startPomodoro (Some ''5'') t a)) t = Some tm
              \<and> remainingSeconds tm = Fin (of_int (max (300 - int k) 0))
              \<and> \<not> lt0 (remainingSeconds tm)
              \<and> isRunning tm = (k < 300))"
proof -
  have s: "pomodoroTimers_st (startPomodoro (Some ''5'') t a) t =
     Some \<lparr>remainingSeconds = Fin (of_int 300), durationSeconds = Fin 300, isRunning = True\<rparr>"
    by (subst startPomodoro_prompt[OF assms refl]) (simp add: parseInt10_5 seconds_5)
  have k: "(tick ^^ k) (pomodoroTimers_st (startPomodoro (Some ''5'') t a)) t =
     Some \<lparr>remainingSeconds = Fin (of_int (max (300 - int k) 0)), durationSeconds = Fin 300,
           isRunning = (int k < 300)\<rparr>" for k
    unfolding tick_funpow s option.map
    by (subst tick_timer_countdown) simp_all
  have 1: "tick prev x = Some (tx\<lparr>remainingSeconds := Fin (of_int (max (n - 1) 0)),
                                   isRunning := (0 < max (n - 1) 0)\<rparr>)"
    if "prev x = Some tx" "isRunning tx" "remainingSeconds tx = Fin (of_int n)" "0 \<le> n" "n \<le> 2 ^ 53"
    using that(1) tick_timer_running[OF that(2-5)] by (simp add: tick_def)
  have 2: "tick prev y = Some ty" if "prev y = Some ty" "\<not> isRunning ty"
    using that by (simp add: tick_def tick_timer_paused)
  have 3: "tick prev z = None" if "prev z = None"
    using that by (simp add: tick_def)
  have 4: "(tick ^^ 301) (pomodoroTimers_st (startPomodoro (Some ''5'') t a)) t
            = Some \<lparr>remainingSeconds = Fin 0, durationSeconds = Fin 300, isRunning = False\<rparr>"
    unfolding k by simp
  have 5: "\<forall>k \<le> 301. \<exists>tm. (tick ^^ k) (pomodoroTimers_st (startPomodoro (Some ''5'') t a)) t = Some tm
              \<and> remainingSeconds tm = Fin (of_int (max (300 - int k) 0))
              \<and> \<not> lt0 (remainingSeconds tm)
              \<and> isRunning tm = (k < 300)"
    unfolding k by simp
  from 1 2 3 4 5 show ?thesis by blast
qed

theorem tick_countdown_witness:
  "tick [''x'' \<mapsto> \<lparr>remainingSeconds = Fin 1, durationSeconds = Fin 10, isRunning = True\<rparr>,
         ''y'' \<mapsto> \<lparr>remainingSeconds = Fin 7, durationSeconds = Fin 10, isRunning = False\<rparr>] ''x''
     = Some \<lparr>remainingSeconds = Fin 0, durationSeconds = Fin 10, isRunning = False\<rparr>
   \<and> tick [''x'' \<mapsto> \<lparr>remainingSeconds = Fin 1, durationSeconds = Fin 10, isRunning = True\<rparr>,
         ''y'' \<mapsto> \<lparr>remainingSeconds = Fin 7, durationSeconds = Fin 10, isRunning = False\<rparr>] ''y''
     = Some \<lparr>remainingSeconds = Fin 7, durationSeconds = Fin 10, isRunning = False\<rparr>
   \<and> tick [''x'' \<mapsto> \<lparr>remainingSeconds = Fin 1, durationSeconds = Fin 10, isRunning = True\<rparr>,
         ''y'' \<mapsto> \<lparr>remainingSeconds = Fin 7, durationSeconds = Fin 10, isRunning = False\<rparr>] ''z'' = None
   \<and> (tick ^^ 301) (pomodoroTimers_st (startPomodoro (Some ''5'') ''t'' app_expired)) ''t''
     = Some \<lparr>remainingSeconds = Fin 0, durationSeconds = Fin 300, isRunning = False\<rparr>"
proof -
  have e: "\<forall>e. pomodoroTimers_st app_expired ''t'' = Some e \<longrightarrow> \<not> gt0 (remainingSeconds e)"
    by (simp add: app_expired_def)
  from tick_countdown[OF e,
      of "[''x'' \<mapsto> \<lparr>remainingSeconds = Fin 1, durationSeconds = Fin 10, isRunning = True\<rparr>,
           ''y'' \<mapsto> \<lparr>remainingSeconds = Fin 7, durationSeconds = Fin 10, isRunning = False\<rparr>]"
         "''x''" "\<lparr>remainingSeconds = Fin 1, durationSeconds = Fin 10, isRunning = True\<rparr>" 1
         "''y''" "\<lparr>remainingSeconds = Fin 7, durationSeconds = Fin 10, isRunning = False\<rparr>"
         "''z''"]
  show ?thesis by simp
qed

lemma parseInt10_cases:
  "parseInt10 s = NaN \<or> (\<exists>v. parseInt10 s = to_double (of_int v))"
proof (cases "takeWhile is_digit
    (if dropWhile is_space s \<noteq> [] \<and> (hd (dropWhile is_space s) = CHR ''-'' \<or> hd (dropWhile is_space s) = CHR ''+'')
     then tl (dropWhile is_space s) else dropWhile is_space s) = []")
  case True
  then show ?thesis unfolding parseInt10_def Let_def by simp
next
  case False
  then show ?thesis unfolding parseInt10_def Let_def by (simp only: if_False) blast
qed

lemma safeMinutes_ge1:
  assumes "is_finite (parseInt10 s)" and "gt0 (parseInt10 s)"
  shows "\<exists>q. parseInt10 s = Fin q \<and> 1 \<le> q"
proof -
  from parseInt10_cases[of s] assms(1) obtain v where v: "parseInt10 s = to_double (of_int v)"
    by auto
  show ?thesis
  proof (cases "1 \<le> v")
    case True
    then have "(1::rat) \<le> of_int v" by simp
    from to_double_ge1[OF this] assms(1) show ?thesis unfolding v by auto
  next
    case False
    then have "(of_int v :: rat) \<le> 0" by simp
    from to_double_nonpos[OF this] assms(2) show ?thesis unfolding v by simp
  qed
qed

lemma seconds_positive:
  "gt0 (dbl_mul (if is_finite (parseInt10 s) \<and> gt0 (parseInt10 s) then parseInt10 s else Fin 30)
          (Fin 60))"
proof (cases "is_finite (parseInt10 s) \<and> gt0 (parseInt10 s)")
  case True
  then obtain q where q: "parseInt10 s = Fin q" "1 \<le> q" using safeMinutes_ge1 by blast
  then have "1 \<le> q * 60" by simp
  from to_double_positive[OF this] True show ?thesis by (simp add: q dbl_mul_def)
next
  case False
  have "gt0 (to_double (30 * 60))" by (rule to_double_positive) simp
  then show ?thesis unfolding if_not_P[OF False] by (simp add: dbl_mul_def)
qed

lemma parseInt10_none: "s = [] \<or> \<not> is_space (hd s) \<and> hd s \<noteq> CHR ''-'' \<and> hd s \<noteq> CHR ''+'' \<and> \<not> is_digit (hd s)
  \<Longrightarrow> parseInt10 s = NaN"
  by (cases s) (auto simp: parseInt10_def Let_def)

text \<open>
  Claim C5, as stated: starting a timer whose entry has no time left changes nothing. It
  fails: the entry of \<open>t\<close> is expired, the prompt is answered with \<open>5\<close>, and the entry
  becomes a running timer of 300 seconds.
\<close>

theorem startPomodoro_expired_counterexample:
  "pomodoroTimers_st app_expired ''t''
     = Some \<lparr>remainingSeconds = Fin 0, durationSeconds = Fin 1500, isRunning = False\<rparr>
   \<and> pomodoroTimers_st (startPomodoro (Some ''5'') ''t'' app_expired) ''t''
     = Some \<lparr>remainingSeconds = Fin 300, durationSeconds = Fin 300, isRunning = True\<rparr>"
proof -
  have 1: "pomodoroTimers_st app_expired ''t''
     = Some \<lparr>remainingSeconds = Fin 0, durationSeconds = Fin 1500, isRunning = False\<rparr>"
    by (simp add: app_expired_def)
  have 2: "pomodoroTimers_st (startPomodoro (Some ''5'') ''t'' app_expired) ''t''
     = Some \<lparr>remainingSeconds = Fin 300, durationSeconds = Fin 300, isRunning = True\<rparr>"
    by (simp add: startPomodoro_def 1 promptTimers_def parseInt10_5 seconds_5 persist_def Let_def)
  from 1 2 show ?thesis by simp
qed

text \<open>
  Claim C5, amended. For a task whose timer entry has no time left, \<open>startPomodoro\<close> asks
  for a duration as it does for a task without an entry. When the prompt is cancelled,
  nothing changes and the entry stays expired. Otherwise the entry is replaced by a running
  timer whose remaining time and duration are both \<open>m * 60\<close>, where \<open>m\<close> is
  \<open>Number.parseInt\<close> of the answer when that is a finite number above zero, and 30
  otherwise; this time is above zero, so the timer is never left expired.
\<close>

theorem startPomodoro_expired:
  assumes "pomodoroTimers_st a taskId = Some e" and "remainingSeconds e = Fin 0"
    and "seconds = dbl_mul (if is_finite (parseInt10 input) \<and> gt0 (parseInt10 input)
                            then parseInt10 input else Fin 30) (Fin 60)"
  shows "startPomodoro None taskId a = a
       \<and> startPomodoro (Some input) taskId a =
            a\<lparr>data := (data a)\<lparr>pomodoroTimers :=
                  (pomodoroTimers_st a)(taskId \<mapsto>
                     \<lparr>remainingSeconds = seconds, durationSeconds = seconds, isRunning = True\<rparr>)\<rparr>,
              pomodoroTimers_st :=
                  (pomodoroTimers_st a)(taskId \<mapsto>
                     \<lparr>remainingSeconds = seconds, durationSeconds = seconds, isRunning = True\<rparr>)\<rparr>
       \<and> gt0 seconds"
proof -
  have n: "startPomodoro None taskId a = a"
    using assms(1,2) by (simp add: startPomodoro_def promptTimers_def)
  have e: "\<forall>e. pomodoroTimers_st a taskId = Some e \<longrightarrow> \<not> gt0 (remainingSeconds e)"
    using assms(1,2) by simp
  note s = startPomodoro_prompt[OF e assms(3)]
  have p: "gt0 seconds" unfolding assms(3) by (rule seconds_positive)
  from n s p show ?thesis by simp
qed

theorem startPomodoro_expired_witness:
  "startPomodoro None ''t'' app_expired = app_expired
   \<and> pomodoroTimers_st (startPomodoro (Some ''abc'') ''t'' app_expired) ''t''
       = Some \<lparr>remainingSeconds = Fin 1800, durationSeconds = Fin 1800, isRunning = True\<rparr>
   \<and> pomodoroTimers_st (startPomodoro (Some ''2.9'') ''t'' app_expired) ''t''
       = Some \<lparr>remainingSeconds = Fin 120, durationSeconds = Fin 120, isRunning = True\<rparr>
   \<and> pomodoroTimers_st (startPomodoro (Some ''-3'') ''t'' app_expired) ''t''
       = Some \<lparr>remainingSeconds = Fin 1800, durationSeconds = Fin 1800, isRunning = True\<rparr>"
proof -
  have e: "pomodoroTimers_st app_expired ''t''
     = Some \<lparr>remainingSeconds = Fin 0, durationSeconds = Fin 1500, isRunning = False\<rparr>"
    by (simp add: app_expired_def)
  have r: "remainingSeconds \<lparr>remainingSeconds = Fin 0, durationSeconds = Fin 1500, isRunning = False\<rparr> = Fin 0"
    by simp
  have p1: "parseInt10 ''abc'' = NaN"
    by (rule parseInt10_none) (simp add: is_space_def is_digit_def)
  have p2: "parseInt10 ''2.9'' = Fin 2"
    using parseInt10_digits[of "''2''" "''.9''"] to_double_int[of 2]
    by (simp add: is_digit_def dec_value_def digit_val_def)
  have p3: "parseInt10 ''-3'' = Fin (- 3)"
    using to_double_int[of "- 3"]
    by (simp add: parseInt10_def is_space_def is_digit_def dec_value_def digit_val_def)
  have m1: "dbl_mul (Fin 30) (Fin 60) = Fin 1800"
    using to_double_int[of 1800] by (simp add: dbl_mul_def)
  have m2: "dbl_mul (Fin 2) (Fin 60) = Fin 120"
    using to_double_int[of 120] by (simp add: dbl_mul_def)
  from startPomodoro_expired[OF e r refl, of "''abc''"]
  have a: "startPomodoro None ''t'' app_expired = app_expired
     \<and> pomodoroTimers_st (startPomodoro (Some ''abc'') ''t'' app_expired) ''t''
       = Some \<lparr>remainingSeconds = Fin 1800, durationSeconds = Fin 1800, isRunning = True\<rparr>"
    by (simp add: p1 m1)
  from startPomodoro_expired[OF e r refl, of "''2.9''"]
  have b: "pomodoroTimers_st (startPomodoro (Some ''2.9'') ''t'' app_expired) ''t''
       = Some \<lparr>remainingSeconds = Fin 120, durationSeconds = Fin 120, isRunning = True\<rparr>"
    by (simp add: p2 m2)
  from startPomodoro_expired[OF e r refl, of "''-3''"]
  have c: "pomodoroTimers_st (startPomodoro (Some ''-3'') ''t'' app_expired) ''t''
       = Some \<lparr>remainingSeconds = Fin 1800, durationSeconds = Fin 1800, isRunning = True\<rparr>"
    by (simp add: p3 m1)
  from a b c show ?thesis by simp
qed

subsection \<open>Completion and visibility\<close>

text \<open>
  Claim C10. \<open>toggleDone\<close> on the id of a task that is hidden and not done gives a task
  that is neither done nor hidden. The task at a position with that id is done afterwards
  exactly when it was neither done nor hidden before, and then it is hidden too; no other
  field of it changes.
\<close>

theorem toggleDone_task:
  assumes "i < length (tasks (data a))"
    and "t = tasks (data a) ! i"
    and "t' = tasks (data (toggleDone (id_task t) a)) ! i"
  shows "(hidden t \<and> \<not> done_task t \<longrightarrow> \<not> done_task t' \<and> \<not> hidden t')
       \<and> (done_task t' \<longleftrightarrow> \<not> done_task t \<and> \<not> hidden t)
       \<and> (hidden t' \<longleftrightarrow> \<not> done_task t \<and> \<not> hidden t)
       \<and> t' = t\<lparr>done_task := done_task t', hidden := hidden t'\<rparr>"
  using assms by (auto simp: toggleDone_def persist_def Let_def)

theorem toggleDone_task_witness:
  "hidden (example_task\<lparr>hidden := True\<rparr>) \<and> \<not> done_task (example_task\<lparr>hidden := True\<rparr>)
   \<and> \<not> done_task (tasks (data (toggleDone ''t1'' (app_with [example_task\<lparr>hidden := True\<rparr>]))) ! 0)
   \<and> \<not> hidden (tasks (data (toggleDone ''t1'' (app_with [example_task\<lparr>hidden := True\<rparr>]))) ! 0)"
proof -
  have l: "0 < length (tasks (data (app_with [example_task\<lparr>hidden := True\<rparr>])))"
    by (simp add: app_with_def)
  have t: "example_task\<lparr>hidden := True\<rparr> = tasks (data (app_with [example_task\<lparr>hidden := True\<rparr>])) ! 0"
    by (simp add: app_with_def)
  have i: "id_task (example_task\<lparr>hidden := True\<rparr>) = ''t1''"
    by (simp add: example_task_def)
  have h: "hidden (example_task\<lparr>hidden := True\<rparr>) \<and> \<not> done_task (example_task\<lparr>hidden := True\<rparr>)"
    by (simp add: example_task_def)
  from toggleDone_task[OF l t refl] h show ?thesis
    unfolding i by blast
qed

subsection \<open>Manual order\<close>

text \<open>
  The ids of the tasks that the client holds are not empty: it makes an id with
  \<open>crypto.randomUUID()\<close>, and everything it loads has passed the normalizer of the
  server on the way out, where an empty id is replaced by a fresh one.
\<close>

lemma safeTask_id:
  assumes "safeTask E cs i (task_json t0) = Some t"
  shows "id_task t = (if id_task t0 \<noteq> [] then id_task t0 else randomUUID E i)"
proof -
  have g: "get (task_json t0) ''id'' = JStr (id_task t0)"
    by (simp add: task_json_def get_def)
  from assms obtain id' where "js_String E (js_or (JStr (id_task t0)) (JStr (randomUUID E i))) = Some id'"
    and "id_task t = id'"
    unfolding safeTask_def g by (auto simp: bind_eq_Some_conv)
  then show ?thesis by (auto simp: js_or_def split: if_splits)
qed

lemma served_ids_nonempty:
  assumes "normalizeState E (doc_json d0) = Some d" and "\<forall>i. randomUUID E i \<noteq> []"
  shows "[] \<notin> id_task ` set (tasks d)"
proof
  assume "[] \<in> id_task ` set (tasks d)"
  then obtain t where t: "t \<in> set (tasks d)" "id_task t = []" by auto
  let ?kept = "filter (\<lambda>t. truthy t \<and> typeof_object t) (array_or (get (doc_json d0) ''tasks'') [])"
  from normalizeState_tasks[OF assms(1)] obtain cs where
    l: "list_all2 (\<lambda>p t. safeTask E cs (fst p) (snd p) = Some t) (enumerate 0 ?kept) (tasks d)"
    by blast
  from t(1) obtain n where n: "n < length (tasks d)" "t = tasks d ! n"
    by (auto simp: in_set_conv_nth)
  from l n have s: "safeTask E cs (fst (enumerate 0 ?kept ! n)) (snd (enumerate 0 ?kept ! n)) = Some t"
    and len: "n < length (enumerate 0 ?kept)"
    by (auto simp: list_all2_conv_all_nth)
  have "set ?kept \<subseteq> task_json ` set (tasks d0)"
    by (auto simp: doc_json_def get_def array_or_def)
  moreover have "snd (enumerate 0 ?kept ! n) \<in> set ?kept"
  proof -
    from len have k: "n < length ?kept" by simp
    have "snd (enumerate 0 ?kept ! n) = ?kept ! n"
      by (simp only: nth_enumerate_eq[OF k] snd_conv)
    with nth_mem[OF k] show ?thesis by (simp only:)
  qed
  ultimately obtain t0 where "snd (enumerate 0 ?kept ! n) = task_json t0" by auto
  with s have "safeTask E cs (fst (enumerate 0 ?kept ! n)) (task_json t0) = Some t" by simp
  from safeTask_id[OF this] t(2) assms(2) show False by (metis)
qed

text \<open>
  Claim C6. On a state whose task ids are not empty: when the two ids differ and both
  belong to tasks of the selected day, \<open>reorderTasksWithinDay\<close> keeps the selected date,
  keeps the multiset of the ids of the tasks of that day (and these tasks themselves, up
  to \<open>order\<close>), numbers them \<open>0, 1, 2, ...\<close> in \<open>order\<close>, keeps the tasks of other days as
  they are, and sets \<open>sortBy\<close> to \<open>manual\<close>, in the document and in the hook state. When
  nothing is dragged, the ids are equal, or one of them belongs to no task of the selected
  day, the document and the sort mode are unchanged.
\<close>

theorem reorder_permutes:
  assumes ids: "[] \<notin> id_task ` set (tasks (data a))"
  shows "(sourceId \<noteq> targetId
      \<and> sourceId \<in> id_task ` set (filter (\<lambda>t. date t = selectedDate (data a)) (tasks (data a)))
      \<and> targetId \<in> id_task ` set (filter (\<lambda>t. date t = selectedDate (data a)) (tasks (data a)))
    \<longrightarrow>
      selectedDate (data (reorderTasksWithinDay (Some sourceId) targetId a)) = selectedDate (data a)
    \<and> mset (map id_task (filter (\<lambda>t. date t = selectedDate (data a))
              (tasks (data (reorderTasksWithinDay (Some sourceId) targetId a)))))
        = mset (map id_task (filter (\<lambda>t. date t = selectedDate (data a)) (tasks (data a))))
    \<and> mset (map (\<lambda>t. t\<lparr>order_task := None\<rparr>) (filter (\<lambda>t. date t = selectedDate (data a))
              (tasks (data (reorderTasksWithinDay (Some sourceId) targetId a)))))
        = mset (map (\<lambda>t. t\<lparr>order_task := None\<rparr>) (filter (\<lambda>t. date t = selectedDate (data a)) (tasks (data a))))
    \<and> map order_task (filter (\<lambda>t. date t = selectedDate (data a))
              (tasks (data (reorderTasksWithinDay (Some sourceId) targetId a))))
        = map (\<lambda>i. Some (int i))
            [0..<length (filter (\<lambda>t. date t = selectedDate (data a)) (tasks (data a)))]
    \<and> filter (\<lambda>t. date t \<noteq> selectedDate (data a))
              (tasks (data (reorderTasksWithinDay (Some sourceId) targetId a)))
        = filter (\<lambda>t. date t \<noteq> selectedDate (data a)) (tasks (data a))
    \<and> sortBy (data (reorderTasksWithinDay (Some sourceId) targetId a)) = ''manual''
    \<and> sortBy_st (reorderTasksWithinDay (Some sourceId) targetId a) = ''manual'')
   \<and> (source = None \<or> source = Some targetId
      \<or> (\<forall>t \<in> set (filter (\<lambda>t. date t = selectedDate (data a)) (tasks (data a))). Some (id_task t) \<noteq> source)
      \<or> (\<forall>t \<in> set (filter (\<lambda>t. date t = selectedDate (data a)) (tasks (data a))). id_task t \<noteq> targetId)
    \<longrightarrow>
      data (reorderTasksWithinDay source targetId a) = data a
    \<and> sortBy_st (reorderTasksWithinDay source targetId a) = sortBy_st a)"
proof (intro conjI impI)
  assume "source = None \<or> source = Some targetId
      \<or> (\<forall>t \<in> set (filter (\<lambda>t. date t = selectedDate (data a)) (tasks (data a))). Some (id_task t) \<noteq> source)
      \<or> (\<forall>t \<in> set (filter (\<lambda>t. date t = selectedDate (data a)) (tasks (data a))). id_task t \<noteq> targetId)"
  then have "source = None \<or> source = Some [] \<or> targetId = [] \<or> source = Some targetId
      \<or> (\<forall>t \<in> set (filter (\<lambda>t. date t = selectedDate (data a)) (tasks (data a))). Some (id_task t) \<noteq> source)
      \<or> (\<forall>t \<in> set (filter (\<lambda>t. date t = selectedDate (data a)) (tasks (data a))). id_task t \<noteq> targetId)"
    by blast
  from reorder_noop[OF this]
  have n: "reorderTasksWithinDay source targetId a = a\<lparr>draggingId := None\<rparr>" .
  show "data (reorderTasksWithinDay source targetId a) = data a"
    unfolding n by simp
  show "sortBy_st (reorderTasksWithinDay source targetId a) = sortBy_st a"
    unfolding n by simp
next
  let ?sel = "selectedDate (data a)"
  let ?same = "filter (\<lambda>t. date t = ?sel) (tasks (data a))"
  let ?other = "filter (\<lambda>t. date t \<noteq> ?sel) (tasks (data a))"
  let ?g = "\<lambda>(index, t). t\<lparr>order_task := Some (int index)\<rparr>"
  assume h0: "sourceId \<noteq> targetId
      \<and> sourceId \<in> id_task ` set ?same \<and> targetId \<in> id_task ` set ?same"
  have sub: "id_task ` set ?same \<subseteq> id_task ` set (tasks (data a))" by auto
  from h0 sub have "sourceId \<in> id_task ` set (tasks (data a))" "targetId \<in> id_task ` set (tasks (data a))"
    by blast+
  with ids have ne: "sourceId \<noteq> []" "targetId \<noteq> []" by blast+
  with h0 have h: "sourceId \<noteq> [] \<and> targetId \<noteq> [] \<and> sourceId \<noteq> targetId
      \<and> sourceId \<in> id_task ` set ?same \<and> targetId \<in> id_task ` set ?same" by simp
  from h obtain reordered where
    m: "mset reordered = mset ?same" and
    r: "reorderTasksWithinDay (Some sourceId) targetId a =
        a\<lparr>data := (data a)\<lparr>tasks := ?other @ map ?g (enumerate 0 reordered),
              sortBy := ''manual'', pomodoroTimers := pomodoroTimers_st a\<rparr>,
           sortBy_st := ''manual'', draggingId := None\<rparr>"
    using reorder_moved[of sourceId targetId a] by blast
  let ?re = "map ?g (enumerate 0 reordered)"
  have t: "tasks (data (reorderTasksWithinDay (Some sourceId) targetId a)) = ?other @ ?re"
    unfolding r by simp
  from m have s: "set reordered = set ?same" by (rule mset_eq_setD)
  have dre: "\<forall>x \<in> set ?re. date x = ?sel"
  proof -
    have "date ` set ?re = set (map date ?re)" by (rule set_map[symmetric])
    also have "\<dots> = set (map date reordered)" by (simp only: reindex_fields)
    also have "\<dots> = date ` set ?same" using s by simp
    finally have e: "date ` set ?re = date ` set ?same" .
    show ?thesis
    proof
      fix x assume "x \<in> set ?re"
      then have "date x \<in> date ` set ?re" by (rule imageI)
      then have "date x \<in> date ` set ?same" unfolding e .
      then show "date x = ?sel" by auto
    qed
  qed
  have f1: "filter (\<lambda>t. date t = ?sel) (?other @ ?re) = ?re"
    using filter_all[OF dre] by (simp add: filter_none)
  have f2: "filter (\<lambda>t. date t \<noteq> ?sel) (?other @ ?re) = ?other"
    using dre by (simp add: filter_none filter_all)
  have len: "length reordered = length ?same"
    using m by (rule mset_eq_length)
  show "selectedDate (data (reorderTasksWithinDay (Some sourceId) targetId a)) = ?sel"
    unfolding r by simp
  show "mset (map id_task (filter (\<lambda>t. date t = ?sel)
              (tasks (data (reorderTasksWithinDay (Some sourceId) targetId a)))))
        = mset (map id_task ?same)"
    unfolding t f1 reindex_fields using m by (metis mset_map)
  show "mset (map (\<lambda>t. t\<lparr>order_task := None\<rparr>) (filter (\<lambda>t. date t = ?sel)
              (tasks (data (reorderTasksWithinDay (Some sourceId) targetId a)))))
        = mset (map (\<lambda>t. t\<lparr>order_task := None\<rparr>) ?same)"
    unfolding t f1 reindex_fields using m by (metis mset_map)
  show "map order_task (filter (\<lambda>t. date t = ?sel)
              (tasks (data (reorderTasksWithinDay (Some sourceId) targetId a))))
        = map (\<lambda>i. Some (int i)) [0..<length ?same]"
    unfolding t f1 reindex_fields len by simp
  show "filter (\<lambda>t. date t \<noteq> ?sel)
              (tasks (data (reorderTasksWithinDay (Some sourceId) targetId a))) = ?other"
    unfolding t f2 ..
  show "sortBy (data (reorderTasksWithinDay (Some sourceId) targetId a)) = ''manual''"
    unfolding r by simp
  show "sortBy_st (reorderTasksWithinDay (Some sourceId) targetId a) = ''manual''"
    unfolding r by simp
qed

theorem reorder_permutes_witness:
  "[] \<notin> id_task ` set (tasks (data app_three))
   \<and> ''t3'' \<in> id_task ` set (filter (\<lambda>t. date t = selectedDate (data app_three)) (tasks (data app_three)))
   \<and> ''t1'' \<in> id_task ` set (filter (\<lambda>t. date t = selectedDate (data app_three)) (tasks (data app_three)))
   \<and> map id_task (tasks (data (reorderTasksWithinDay (Some ''t3'') ''t1'' app_three)))
        = [''t2'', ''t3'', ''t1'']
   \<and> map order_task (filter (\<lambda>t. date t = selectedDate (data app_three))
              (tasks (data (reorderTasksWithinDay (Some ''t3'') ''t1'' app_three))))
        = map (\<lambda>i. Some (int i))
            [0..<length (filter (\<lambda>t. date t = selectedDate (data app_three)) (tasks (data app_three)))]
   \<and> sortBy (data (reorderTasksWithinDay (Some ''t3'') ''t1'' app_three)) = ''manual''
   \<and> data (reorderTasksWithinDay (Some ''t1'') ''t1'' app_three) = data app_three"
proof -
  have i: "[] \<notin> id_task ` set (tasks (data app_three))"
    by (simp add: app_three_def app_with_def example_task_def createDefaultState_def env0_def)
  have h: "''t3'' \<noteq> ''t1''
      \<and> ''t3'' \<in> id_task ` set (filter (\<lambda>t. date t = selectedDate (data app_three)) (tasks (data app_three)))
      \<and> ''t1'' \<in> id_task ` set (filter (\<lambda>t. date t = selectedDate (data app_three)) (tasks (data app_three)))"
    by (simp add: app_three_def app_with_def example_task_def createDefaultState_def env0_def)
  have c: "map id_task (tasks (data (reorderTasksWithinDay (Some ''t3'') ''t1'' app_three)))
        = [''t2'', ''t3'', ''t1'']"
    by code_simp
  from reorder_permutes[OF i, of "''t3''" "''t1''" "Some ''t1''"] i h c
  show ?thesis by blast
qed

subsection \<open>The order of the visible tasks\<close>




subsection \<open>The two normalizers\<close>

text \<open>
  Claim C3, as stated, fails. The document has the category \<open>Work\<close>, a task with an
  \<open>order\<close>, the sort mode \<open>manual\<close> and a running timer. The client keeps all of it
  and does not add \<open>General\<close>; the server adds \<open>General\<close>, rebuilds the task from
  defaults without its \<open>order\<close>, and returns neither \<open>sortBy\<close> nor
  \<open>pomodoroTimers\<close>.
\<close>

theorem normalizers_differ_counterexample:
  "normalizeState_client env0 doc_work_manual =
     Some (JObj [(''tasks'', JArr [JObj [(''id'', JStr ''t1''), (''order'', JNum (Fin 0))]]),
                 (''categories'', JArr [JStr ''Work'']),
                 (''categoryColors'', JObj [(''Work'', JStr ''#4f8dfd'')]),
                 (''selectedDate'', JStr ''2026-11-03''),
                 (''sortBy'', JStr ''manual''),
                 (''pomodoroTimers'',
                    JObj [(''t1'', JObj [(''remainingSeconds'', JNum (Fin 90)),
                                         (''durationSeconds'', JNum (Fin 300)),
                                         (''isRunning'', JBool True)])])])
   \<and> normalizeState env0 doc_work_manual = Some normalized_work
   \<and> doc_json normalized_work =
     JObj [(''tasks'', JArr [JObj [(''id'', JStr ''t1''), (''name'', JStr []),
               (''description'', JStr []), (''priority'', JStr ''Medium''),
               (''category'', JStr ''General''), (''taskType'', JStr ''Work''),
               (''meetingTime'', JStr []), (''date'', JStr ''2026-11-03''),
               (''done'', JBool False), (''hidden'', JBool False),
               (''createdAt'', JNum (Fin 1793700000000))]]),
           (''categories'', JArr [JStr ''General'', JStr ''Work'']),
           (''categoryColors'', JObj [(''General'', JStr ''#4f8dfd''), (''Work'', JStr ''#4f8dfd'')]),
           (''selectedDate'', JStr ''2026-11-03'')]"
  by code_simp

text \<open>
  Claim C3, amended. The two normalizers agree on what the server has normalized: for
  every document the server-side normalizer returns, the client-side normalizer applied to
  it returns the same tasks, the same categories, the same colour for every key of
  \<open>categoryColors\<close> and the same selected date (today's date when it is empty), and
  adds the sort mode \<open>priority\<close> and no timers.
\<close>

theorem client_keeps_normalized:
  "normalizeState E x = Some d \<longrightarrow>
     (\<exists>colors. map_of colors = map_of (categoryColors d)
        \<and> normalizeState_client E (doc_json d) =
            Some (client_json (map task_json (tasks d)) (categories d) colors
                    (if selectedDate d = [] then today E else selectedDate d)
                    ''priority'' []))"
  using client_on_normalized[of E x d] by blast

theorem client_keeps_normalized_witness:
  "normalizeState env0 doc_work_manual = Some normalized_work
   \<and> (\<exists>colors. map_of colors = map_of (categoryColors normalized_work)
        \<and> normalizeState_client env0 (doc_json normalized_work) =
            Some (client_json (map task_json (tasks normalized_work)) (categories normalized_work)
                    colors ''2026-11-03'' ''priority'' []))"
proof -
  have n: "normalizeState env0 doc_work_manual = Some normalized_work"
    by code_simp
  have s: "(if selectedDate normalized_work = [] then today env0 else selectedDate normalized_work)
      = ''2026-11-03''"
    by (simp add: normalized_work_def)
  from client_keeps_normalized[of env0 doc_work_manual normalized_work] n
  show ?thesis unfolding s by blast
qed

subsection \<open>The progress percentage of a timer\<close>

lemma percent_of_elapsed:
  assumes "0 \<le> r" and "r \<le> d" and "1 \<le> d" and "d \<le> 2 ^ 53"
  shows "getPomodoroProgressPercent (Fin (of_int r)) (Fin (of_int d)) =
     math_round (dbl_mul (dbl_div (Fin (of_int (d - r))) (Fin (of_int d))) (Fin 100))"
proof -
  have d0: "(of_int d :: rat) \<noteq> 0" "(1::rat) \<le> of_int d" using assms(3) by simp_all
  have sd: "num_max (Fin 1) (num_or (Fin (of_int d)) DEFAULT_POMODORO_SECONDS) = Fin (of_int d)"
    using d0 by (simp add: num_or_def num_max_def)
  have rm: "num_max (Fin 0) (num_min (Fin (of_int d)) (num_or (Fin (of_int r)) (Fin 0))) = Fin (of_int r)"
    using assms(1,2) by (simp add: num_or_def num_min_def num_max_def)
  have "\<bar>d - r\<bar> \<le> 2 ^ 53" using assms by simp
  from to_double_int[OF this]
  have "to_double (of_int d - of_int r) = Fin (of_int (d - r))" by simp
  then have el: "dbl_sub (Fin (of_int d)) (Fin (of_int r)) = Fin (of_int (d - r))"
    by (simp add: dbl_sub_def)
  show ?thesis unfolding getPomodoroProgressPercent_def Let_def sd rm el ..
qed

lemma percent_765: "getPomodoroProgressPercent (Fin 765) (Fin 1800) = Fin 57"
proof -
  have q: "dbl_div (Fin 1035) (Fin 1800) = Fin (2589569785738035 / 4503599627370496)"
    unfolding dbl_div_def
    by (simp, subst to_double_at[where k = "- 1" and m = 5179139571476070]) simp_all
  have p: "dbl_mul (Fin (2589569785738035 / 4503599627370496)) (Fin 100)
      = Fin (8092405580431359 / 140737488355328)"
    unfolding dbl_mul_def
    by (simp, subst to_double_at[where k = 5 and m = 8092405580431359]) simp_all
  from percent_of_elapsed[of 765 1800] show ?thesis by (simp add: q p floor_eq_iff)
qed

lemma percent_1539: "getPomodoroProgressPercent (Fin 1539) (Fin 1800) = Fin 14"
proof -
  have q: "dbl_div (Fin 261) (Fin 1800) = Fin (5224175567749775 / 36028797018963968)"
    unfolding dbl_div_def
    by (simp, subst to_double_at[where k = "- 3" and m = 5224175567749775]) simp_all
  have p: "dbl_mul (Fin (5224175567749775 / 36028797018963968)) (Fin 100)
      = Fin (8162774324609023 / 562949953421312)"
    unfolding dbl_mul_def
    by (simp, subst to_double_at[where k = 3 and m = 8162774324609023]) simp_all
  from percent_of_elapsed[of 1539 1800] show ?thesis by (simp add: q p floor_eq_iff)
qed

lemma parseInt10_30: "parseInt10 ''30'' = Fin 30"
  using parseInt10_digits[of "''30''" "[]"] to_double_int[of 30]
  by (simp add: is_digit_def dec_value_def digit_val_def)

lemma default_timer:
  "pomodoroTimers_st (startPomodoro (Some ''30'') ''t'' (initialApp env0)) ''t''
     = Some \<lparr>remainingSeconds = Fin (of_int 1800), durationSeconds = Fin 1800, isRunning = True\<rparr>"
proof -
  have m: "dbl_mul (Fin 30) (Fin 60) = Fin 1800"
    using to_double_int[of 1800] by (simp add: dbl_mul_def)
  show ?thesis
    by (simp add: startPomodoro_def initialApp_def promptTimers_def persist_def parseInt10_30 m Let_def)
qed

text \<open>
  Claim C9, on its failing inputs. A timer of 30 minutes, the duration that the prompt
  proposes, has 765 seconds left after 1035 ticks and 1539 seconds left after 261 ticks.
  The exact percentages are \<open>57.5\<close> and \<open>14.5\<close>, which round to 58 and to 15. The
  function divides first and multiplies then, each with a rounded result, so that the
  products come out just below \<open>57.5\<close> and \<open>14.5\<close>: it returns 57 and 14.
\<close>

theorem progress_percent_differs:
  "(tick ^^ 1035) (pomodoroTimers_st (startPomodoro (Some ''30'') ''t'' (initialApp env0))) ''t''
     = Some \<lparr>remainingSeconds = Fin 765, durationSeconds = Fin 1800, isRunning = True\<rparr>
   \<and> getPomodoroProgressPercent (Fin 765) (Fin 1800) = Fin 57
   \<and> progress_spec 765 1800 = 115 / 2
   \<and> (tick ^^ 261) (pomodoroTimers_st (startPomodoro (Some ''30'') ''t'' (initialApp env0))) ''t''
     = Some \<lparr>remainingSeconds = Fin 1539, durationSeconds = Fin 1800, isRunning = True\<rparr>
   \<and> getPomodoroProgressPercent (Fin 1539) (Fin 1800) = Fin 14
   \<and> progress_spec 1539 1800 = 29 / 2"
proof -
  have t: "(tick ^^ k) (pomodoroTimers_st (startPomodoro (Some ''30'') ''t'' (initialApp env0))) ''t''
     = Some \<lparr>remainingSeconds = Fin (of_int (max (1800 - int k) 0)), durationSeconds = Fin 1800,
             isRunning = (int k < 1800)\<rparr>" for k
    unfolding tick_funpow default_timer option.map
    by (subst tick_timer_countdown) simp_all
  have s: "progress_spec 765 1800 = 115 / 2" "progress_spec 1539 1800 = 29 / 2"
    by (simp_all add: progress_spec_def)
  show ?thesis unfolding t by (simp add: percent_765 percent_1539 s)
qed

end
